theory Spec2Isabelle
  imports
    Complex_Main
    "HOL-Library.Char_ord"
    "HOL-Library.List_Lexorder"
    "HOL-Library.AList"
    "HOL-Library.Multiset"
begin

section \<open>Conventions of the embedding\<close>

text \<open>
  The repository is a Python program. Python strings are modelled as \<^typ>\<open>string\<close>; the
  order on strings is the lexicographic order on characters by code
  (\<open>Char_ord\<close> with \<open>List_Lexorder\<close>), which is Python's \<open>str\<close> comparison. A character
  of the model is a code point below 256: the strings covered are those of Latin-1, which
  contains ASCII.

  A Python \<open>dict\<close> whose iteration order matters is an association list in insertion
  order: \<^const>\<open>AList.update\<close> is \<open>d[k] = v\<close> (a new key goes to the end, an existing key
  keeps its place and takes the new value), \<^const>\<open>AList.delete\<close> is \<open>del d[k]\<close>,
  \<^const>\<open>map_of\<close> is \<open>d.get(k)\<close> and \<open>map snd\<close> is \<open>d.values()\<close>.

  Python's \<open>sorted(xs, key=f)\<close> and \<open>xs.sort(key=f)\<close> are stable; so is
  \<^const>\<open>sort_key\<close>.
\<close>

section \<open>OrderResolver: \<open>get_ordered_items\<close> (Hue Control.py)\<close>

text \<open>
  \<open>get_name\<close> stands for \<open>lambda item: item.get(name_key)\<close>: the value of an item under the
  key selector, \<open>None\<close> when the item has no such key. \<open>sort_name\<close> is the sort key
  \<open>x.get(name_key, "")\<close>.
\<close>

definition sort_name :: "('a \<Rightarrow> string option) \<Rightarrow> 'a \<Rightarrow> string" where
  "sort_name get_name x = (case get_name x of None \<Rightarrow> [] | Some s \<Rightarrow> s)"

text \<open>\<open>{item.get(name_key): item for item in actual_items}\<close>\<close>

definition items_by_name ::
  "('a \<Rightarrow> string option) \<Rightarrow> 'a list \<Rightarrow> (string option \<times> 'a) list" where
  "items_by_name get_name actual_items =
     foldl (\<lambda>m item. AList.update (get_name item) item m) [] actual_items"

text \<open>
  The loop over \<open>preferred_order_names\<close>; its state is
  \<open>(final_ordered_list, remaining_items_map)\<close>.
\<close>

fun preferred_loop ::
  "(string option \<times> 'a) list \<Rightarrow> string list \<Rightarrow>
   'a list \<times> (string option \<times> 'a) list \<Rightarrow> 'a list \<times> (string option \<times> 'a) list" where
  "preferred_loop ordered_items_map [] st = st"
| "preferred_loop ordered_items_map (name # names) (final_ordered_list, remaining_items_map) =
     (case map_of ordered_items_map (Some name) of
        Some item \<Rightarrow>
          preferred_loop ordered_items_map names
            (final_ordered_list @ [item],
             if map_of remaining_items_map (Some name) \<noteq> None
             then AList.delete (Some name) remaining_items_map
             else remaining_items_map)
      | None \<Rightarrow> preferred_loop ordered_items_map names (final_ordered_list, remaining_items_map))"

definition get_ordered_items ::
  "('a \<Rightarrow> string option) \<Rightarrow> 'a list \<Rightarrow> string list \<Rightarrow> 'a list" where
  "get_ordered_items get_name actual_items preferred_order_names =
     (if preferred_order_names = [] then sort_key (sort_name get_name) actual_items
      else
        let ordered_items_map = items_by_name get_name actual_items;
            (final_ordered_list, remaining_items_map) =
               preferred_loop ordered_items_map preferred_order_names ([], ordered_items_map)
        in final_ordered_list @ sort_key (sort_name get_name) (map snd remaining_items_map))"

section \<open>NameNormalizer: \<open>_normalize_device_name\<close> (hue_structure_generator.py)\<close>

text \<open>
  The character classes of the two regular expressions, among the code points below 256.
  \<open>\s\<close> of a \<open>str\<close> pattern is Unicode whitespace: tab, line feed, vertical tab, form feed,
  carriage return, the four separators \<open>0x1C\<close> to \<open>0x1F\<close>, the space, the next-line
  control \<open>0x85\<close> and the no-break space \<open>0xA0\<close>. \<open>\d\<close> is a Unicode decimal digit: below
  256 these are \<open>0\<close> to \<open>9\<close>.
\<close>

definition is_space :: "char \<Rightarrow> bool" where
  "is_space c = (c \<in> set [CHR 0x09, CHR 0x0A, CHR 0x0B, CHR 0x0C, CHR 0x0D,
                           CHR 0x1C, CHR 0x1D, CHR 0x1E, CHR 0x1F, CHR '' '',
                           CHR 0x85, CHR 0xA0])"

definition is_digit :: "char \<Rightarrow> bool" where
  "is_digit c = (c \<in> set ''0123456789'')"

text \<open>
  The pattern \<open>\s*\d+$\<close> tried at the start of \<open>s\<close>: the longest run of whitespace, then
  the longest run of digits, which must not be empty, then \<open>$\<close>, which holds at the end of
  the string and also just before a line feed that ends the string. Both classes are
  disjoint, so backtracking finds no other match. The result is the text left after the
  match.
\<close>

definition match_trailing_number :: "string \<Rightarrow> string option" where
  "match_trailing_number s =
     (let after_space = dropWhile is_space s;
          digits = takeWhile is_digit after_space;
          rest = dropWhile is_digit after_space
      in if digits \<noteq> [] \<and> (rest = [] \<or> rest = [CHR 0x0A]) then Some rest else None)"

text \<open>
  \<open>re.sub(r'\s*\d+$', '', name)\<close>: scan from the left; where the pattern matches, drop the
  match and go on after it; elsewhere keep the character and move one step.
\<close>

function sub_trailing_number :: "string \<Rightarrow> string" where
  "sub_trailing_number [] = []"
| "sub_trailing_number (c # cs) =
     (case match_trailing_number (c # cs) of
        Some rest \<Rightarrow> sub_trailing_number rest
      | None \<Rightarrow> c # sub_trailing_number cs)"
  by pat_completeness auto
termination
proof (relation "measure length")
  fix c cs rest
  assume m: "match_trailing_number (c # cs) = Some rest"
  let ?a = "dropWhile is_space (c # cs)"
  from m have r: "rest = dropWhile is_digit ?a" and d: "takeWhile is_digit ?a \<noteq> []"
    by (auto simp: match_trailing_number_def Let_def split: if_splits)
  have "length ?a = length (takeWhile is_digit ?a) + length rest"
    unfolding r by (metis length_append takeWhile_dropWhile_id)
  moreover have "length ?a \<le> length (c # cs)" by (rule length_dropWhile_le)
  moreover have "0 < length (takeWhile is_digit ?a)" using d by simp
  ultimately have "length rest < length (c # cs)" by linarith
  then show "(rest, c # cs) \<in> measure length" by (simp only: in_measure)
qed simp_all

text \<open>The second substitution, \<open>re.sub(r'\s+', '', base_name)\<close>, deletes every whitespace
  character.\<close>

definition normalize_device_name :: "string \<Rightarrow> string" where
  "normalize_device_name name =
     (if name = [] then ''UnnamedDevice''
      else let base_name = sub_trailing_number name
           in filter (\<lambda>c. \<not> is_space c) base_name)"

text \<open>
  The normalizer in the words of the specification, for comparison with the code: remove
  one trailing run of whitespace followed by digits, then remove all whitespace.
  \<open>chomp\<close> sets aside one final line feed, which \<open>$\<close> tolerates after the digits.
\<close>

definition strip_trailing_number :: "string \<Rightarrow> string" where
  "strip_trailing_number s =
     (if takeWhile is_digit (rev s) = [] then s
      else rev (dropWhile is_space (dropWhile is_digit (rev s))))"

definition chomp :: "string \<Rightarrow> string" where
  "chomp s = (if s \<noteq> [] \<and> last s = CHR 0x0A then butlast s else s)"

section \<open>StructureBuilder: \<open>generate_hue_structure_json\<close> (hue_structure_generator.py)\<close>

subsection \<open>Raw bridge resources\<close>

text \<open>
  The resources are JSON objects read with \<open>.get\<close>. Each record lists the keys the code
  reads; a key that may be missing is an \<open>option\<close>, \<open>None\<close> standing for the absent key.
  Values are typed as the bridge sends them: ids and names are strings, \<open>on\<close> is a
  boolean, \<open>brightness\<close> is a number. \<open>"color" in service\<close> and
  \<open>"color_temperature" in service\<close> are the two booleans of a light.
\<close>

record raw_metadata =
  md_name :: "string option"

record raw_reference =
  rid :: "string option"
  rtype :: "string option"

record raw_device =
  raw_device_id :: "string option"
  raw_device_metadata :: "raw_metadata option"

record raw_dimming =
  raw_brightness :: "rat option"

record raw_on =
  raw_on_on :: "bool option"

record raw_light =
  raw_light_id :: "string option"
  raw_light_owner :: "raw_reference option"
  raw_light_metadata :: "raw_metadata option"
  raw_light_dimming :: "raw_dimming option"
  raw_light_has_color :: bool
  raw_light_has_color_temperature :: bool
  raw_light_on :: "raw_on option"

record raw_room =
  raw_room_id :: "string option"
  raw_room_metadata :: "raw_metadata option"
  raw_room_children :: "raw_reference list option"

subsection \<open>The structure document and the ordering document\<close>

record light_service =
  service_id :: string
  service_name :: string
  original_metadata_name :: "string option"
  is_on :: bool
  supports_dimming :: bool
  current_brightness :: "rat option"
  supports_color :: bool
  supports_color_temperature :: bool

record hue_device =
  device_name :: string
  device_id :: string
  light_services :: "light_service list"

record device_group =
  group_base_name :: string
  hue_devices :: "hue_device list"

record room =
  room_name :: string
  room_id :: string
  device_groups :: "device_group list"
  standalone_devices :: "hue_device list"

record house_structure =
  house_name :: string
  rooms :: "room list"

record ui_order =
  room_order :: "string list"
  device_order_in_room :: "(string \<times> string list) list"

subsection \<open>Errors\<close>

text \<open>
  The only exception the builder can raise on typed resources: \<open>dev_id[:6]\<close> and
  \<open>room_id[:6]\<close> are evaluated for the default name whether or not a name is present, and
  slicing \<open>None\<close> is a \<open>TypeError\<close>. Nothing in the builder catches it.
\<close>

datatype py_error = TypeError

fun fold_raise :: "('s \<Rightarrow> 'a \<Rightarrow> py_error + 's) \<Rightarrow> 'a list \<Rightarrow> 's \<Rightarrow> py_error + 's" where
  "fold_raise f [] s = Inr s"
| "fold_raise f (x # xs) s = (case f s x of Inl e \<Rightarrow> Inl e | Inr s' \<Rightarrow> fold_raise f xs s')"

fun map_raise :: "('a \<Rightarrow> py_error + 'b) \<Rightarrow> 'a list \<Rightarrow> py_error + 'b list" where
  "map_raise f [] = Inr []"
| "map_raise f (x # xs) =
     (case f x of
        Inl e \<Rightarrow> Inl e
      | Inr y \<Rightarrow> (case map_raise f xs of Inl e \<Rightarrow> Inl e | Inr ys \<Rightarrow> Inr (y # ys)))"

subsection \<open>Step 1: device ids to names and normalized names\<close>

text \<open>\<open>x.get("metadata", {}).get("name", default)\<close>\<close>

definition metadata_name :: "raw_metadata option \<Rightarrow> string \<Rightarrow> string" where
  "metadata_name md dflt =
     (case md of
        None \<Rightarrow> dflt
      | Some m \<Rightarrow> (case md_name m of None \<Rightarrow> dflt | Some n \<Rightarrow> n))"

record device_detail =
  detail_name :: string
  detail_normalized_name :: string
  detail_id :: string

definition add_device_detail ::
  "(string \<times> device_detail) list \<Rightarrow> raw_device \<Rightarrow> py_error + (string \<times> device_detail) list" where
  "add_device_detail device_details_map dev =
     (case raw_device_id dev of
        None \<Rightarrow> Inl TypeError
      | Some dev_id \<Rightarrow>
          let dev_name = metadata_name (raw_device_metadata dev) (''Unnamed Device '' @ take 6 dev_id)
          in Inr (if dev_id \<noteq> []
                  then AList.update dev_id
                         \<lparr>detail_name = dev_name,
                          detail_normalized_name = normalize_device_name dev_name,
                          detail_id = dev_id\<rparr> device_details_map
                  else device_details_map))"

subsection \<open>Step 2: light services by owning device\<close>

definition get_list :: "('k \<times> 'v list) list \<Rightarrow> 'k \<Rightarrow> 'v list" where
  "get_list m k = (case map_of m k of None \<Rightarrow> [] | Some l \<Rightarrow> l)"

definition make_light_service :: "(string \<times> device_detail) list \<Rightarrow> string \<Rightarrow> string \<Rightarrow> raw_light \<Rightarrow> light_service" where
  "make_light_service device_details_map owner_id sid service =
     (let service_name_meta =
            (case raw_light_metadata service of None \<Rightarrow> None | Some md \<Rightarrow> md_name md);
          owner_device_name =
            (case map_of device_details_map owner_id of
               None \<Rightarrow> ''Unknown Owner''
             | Some d \<Rightarrow> detail_name d);
          final_service_name =
            (case service_name_meta of
               None \<Rightarrow> owner_device_name @ '' Light''
             | Some n \<Rightarrow> if n = [] \<or> n = owner_device_name
                         then owner_device_name @ '' Light'' else n);
          dimming = (raw_light_dimming service \<noteq> None);
          brightness =
            (case raw_light_dimming service of None \<Rightarrow> None | Some d \<Rightarrow> raw_brightness d);
          on_state =
            (case raw_light_on service of
               None \<Rightarrow> False
             | Some on_obj \<Rightarrow> (case raw_on_on on_obj of None \<Rightarrow> False | Some b \<Rightarrow> b))
      in \<lparr>service_id = sid,
          service_name = final_service_name,
          original_metadata_name = service_name_meta,
          is_on = on_state,
          supports_dimming = dimming,
          current_brightness = (if on_state \<and> dimming then brightness else None),
          supports_color = raw_light_has_color service,
          supports_color_temperature = raw_light_has_color_temperature service\<rparr>)"

definition add_light_service ::
  "(string \<times> device_detail) list \<Rightarrow> (string \<times> light_service list) list \<Rightarrow> raw_light
   \<Rightarrow> (string \<times> light_service list) list" where
  "add_light_service device_details_map hue_device_to_light_services service =
     (let owner_id = (case raw_light_owner service of None \<Rightarrow> None | Some r \<Rightarrow> rid r)
      in case (owner_id, raw_light_id service) of
           (Some oid, Some sid) \<Rightarrow>
             if oid \<noteq> [] \<and> sid \<noteq> []
             then AList.update oid
                    (get_list hue_device_to_light_services oid
                       @ [make_light_service device_details_map oid sid service])
                    hue_device_to_light_services
             else hue_device_to_light_services
         | _ \<Rightarrow> hue_device_to_light_services)"

subsection \<open>Step 3: rooms\<close>

definition room_hue_device_ids :: "raw_room \<Rightarrow> string option list" where
  "room_hue_device_ids room =
     map rid (filter (\<lambda>child_ref. rtype child_ref = Some ''device'')
                (case raw_room_children room of None \<Rightarrow> [] | Some cs \<Rightarrow> cs))"

text \<open>The loop that fills \<open>devices_by_normalized_name_in_room\<close>, one device id at a time.\<close>

definition add_room_device ::
  "(string \<times> device_detail) list \<Rightarrow> (string \<times> light_service list) list \<Rightarrow>
   (string \<times> hue_device list) list \<Rightarrow> string option \<Rightarrow> (string \<times> hue_device list) list" where
  "add_room_device device_details_map hue_device_to_light_services by_name dev_id =
     (case dev_id of
        None \<Rightarrow> by_name
      | Some i \<Rightarrow>
          (case map_of device_details_map i of
             None \<Rightarrow> by_name
           | Some detail \<Rightarrow>
               let norm_name = detail_normalized_name detail
               in AList.update norm_name
                    (get_list by_name norm_name
                       @ [\<lparr>device_name = detail_name detail,
                           device_id = detail_id detail,
                           light_services = get_list hue_device_to_light_services i\<rparr>])
                    by_name))"

text \<open>
  The loop over \<open>devices_by_normalized_name_in_room.items()\<close>; its state is
  \<open>(device_groups, standalone_devices)\<close>.
\<close>

definition populate_room ::
  "(string \<times> device_group) list \<times> hue_device list \<Rightarrow> string \<times> hue_device list \<Rightarrow>
   (string \<times> device_group) list \<times> hue_device list" where
  "populate_room st entry =
     (case (st, entry) of
        ((groups, standalone), (norm_name, hue_devices_list)) \<Rightarrow>
          if length hue_devices_list > 1
          then (AList.update norm_name
                  \<lparr>group_base_name = norm_name,
                   hue_devices = sort_key device_name hue_devices_list\<rparr> groups,
                standalone)
          else if length hue_devices_list = 1
          then (groups, standalone @ [hue_devices_list ! 0])
          else (groups, standalone))"

definition build_room ::
  "(string \<times> device_detail) list \<Rightarrow> (string \<times> light_service list) list \<Rightarrow> raw_room
   \<Rightarrow> py_error + room" where
  "build_room device_details_map hue_device_to_light_services raw =
     (case raw_room_id raw of
        None \<Rightarrow> Inl TypeError
      | Some rid' \<Rightarrow>
          let name = metadata_name (raw_room_metadata raw) (''Unnamed Room '' @ take 6 rid');
              by_name = foldl (add_room_device device_details_map hue_device_to_light_services)
                          [] (room_hue_device_ids raw);
              (groups, standalone) = foldl populate_room ([], []) by_name
          in Inr \<lparr>room_name = name,
                  room_id = rid',
                  device_groups = sort_key group_base_name (map snd groups),
                  standalone_devices = sort_key device_name standalone\<rparr>)"

definition build_house_structure ::
  "string \<Rightarrow> raw_device list \<Rightarrow> raw_light list \<Rightarrow> raw_room list \<Rightarrow> py_error + house_structure" where
  "build_house_structure bridge_ip devices_raw light_services_raw rooms_raw =
     (case fold_raise add_device_detail devices_raw [] of
        Inl e \<Rightarrow> Inl e
      | Inr device_details_map \<Rightarrow>
          let hue_device_to_light_services =
                foldl (add_light_service device_details_map) [] light_services_raw
          in (case map_raise (build_room device_details_map hue_device_to_light_services) rooms_raw of
                Inl e \<Rightarrow> Inl e
              | Inr built \<Rightarrow>
                  Inr \<lparr>house_name = ''Hue Setup on '' @ bridge_ip,
                       rooms = sort_key room_name built\<rparr>))"

subsection \<open>The devices of a room and their buckets\<close>

text \<open>
  The device entries the room loop appends, in the order of the room's children: one for
  every child of type \<open>device\<close> whose id the device map knows.
\<close>

definition room_device_entry ::
  "(string \<times> device_detail) list \<Rightarrow> (string \<times> light_service list) list \<Rightarrow> string option
   \<Rightarrow> hue_device list" where
  "room_device_entry device_details_map hue_device_to_light_services dev_id =
     (case dev_id of
        None \<Rightarrow> []
      | Some i \<Rightarrow>
          (case map_of device_details_map i of
             None \<Rightarrow> []
           | Some detail \<Rightarrow>
               [\<lparr>device_name = detail_name detail,
                 device_id = detail_id detail,
                 light_services = get_list hue_device_to_light_services i\<rparr>]))"

definition room_devices ::
  "(string \<times> device_detail) list \<Rightarrow> (string \<times> light_service list) list \<Rightarrow> raw_room
   \<Rightarrow> hue_device list" where
  "room_devices device_details_map hue_device_to_light_services raw =
     concat (map (room_device_entry device_details_map hue_device_to_light_services)
               (room_hue_device_ids raw))"

text \<open>The bucket of a normalized name: the devices whose display name normalizes to it.\<close>

definition devices_named :: "string \<Rightarrow> hue_device list \<Rightarrow> hue_device list" where
  "devices_named k devs = filter (\<lambda>d. normalize_device_name (device_name d) = k) devs"

text \<open>
  What the room loop keeps in \<open>devices_by_normalized_name_in_room\<close> once it has taken in
  the devices \<open>devs\<close>: one entry per normalized name that occurs, holding the bucket of
  that name.
\<close>

definition buckets_of ::
  "(string \<times> hue_device list) list \<Rightarrow> hue_device list \<Rightarrow> bool" where
  "buckets_of b devs \<longleftrightarrow>
     distinct (map fst b) \<and> (\<forall>k. get_list b k = devices_named k devs) \<and> (\<forall>(k, l) \<in> set b. l \<noteq> [])"

subsection \<open>The default ordering document\<close>

definition device_names_in_room :: "room \<Rightarrow> string list" where
  "device_names_in_room room_data =
     map group_base_name (device_groups room_data) @ map device_name (standalone_devices room_data)"

definition default_ui_order :: "house_structure \<Rightarrow> ui_order" where
  "default_ui_order house =
     \<lparr>room_order = map room_name (rooms house),
      device_order_in_room =
        foldl (\<lambda>m room_data. AList.update (room_name room_data) (device_names_in_room room_data) m)
          [] (rooms house)\<rparr>"

subsection \<open>The bridge, the files and the whole run\<close>

text \<open>
  What a \<open>GET /resource/<type>\<close> comes back with: a failed request, a body that is not
  JSON, or a JSON body with its optional \<open>errors\<close> and \<open>data\<close> arrays (an error is kept as
  its description).
\<close>

datatype 'a bridge_reply =
  RequestException
  | JSONDecodeError
  | Reply "string list option" "'a list option"

definition get_hue_resources :: "bool \<Rightarrow> 'a bridge_reply \<Rightarrow> 'a list option" where
  "get_hue_resources config_valid reply =
     (if \<not> config_valid then None
      else case reply of
             RequestException \<Rightarrow> None
           | JSONDecodeError \<Rightarrow> None
           | Reply errors data \<Rightarrow>
               (case errors of
                  Some (e # es) \<Rightarrow> None
                | _ \<Rightarrow> Some (case data of None \<Rightarrow> [] | Some d \<Rightarrow> d)))"

text \<open>
  The world the run acts on: the two environment variables, the replies of the bridge to
  the three requests, and the file system. A path names a file (\<open>file_of\<close>, the number of
  the file: two spellings of a path, such as \<open>reference/ui_order.json\<close> and
  \<open>./reference/ui_order.json\<close>, name the same file), \<open>files\<close> gives the content of each
  file that exists, and \<open>writable\<close> says whether a write through a path goes through
  (\<open>makedirs\<close>, \<open>open\<close> and \<open>json.dump\<close> together; otherwise they raise \<open>IOError\<close> and
  nothing is written).
\<close>

datatype file_content =
  StructureDocument house_structure
  | OrderingDocument ui_order
  | OtherContent string

record world =
  BRIDGE_IP :: "string option"
  HUE_APP_KEY :: "string option"
  device_reply :: "raw_device bridge_reply"
  light_reply :: "raw_light bridge_reply"
  room_reply :: "raw_room bridge_reply"
  file_of :: "string \<Rightarrow> nat"
  files :: "nat \<Rightarrow> file_content option"
  writable :: "string \<Rightarrow> bool"

definition UI_ORDER_FILE_PATH_DEFAULT :: string where
  "UI_ORDER_FILE_PATH_DEFAULT = ''reference/ui_order.json''"

definition DEFAULT_OUTPUT_FILE :: string where
  "DEFAULT_OUTPUT_FILE = ''reference/hue_light_structure.json''"

definition truthy_str :: "string option \<Rightarrow> bool" where
  "truthy_str v = (case v of None \<Rightarrow> False | Some s \<Rightarrow> s \<noteq> [])"

definition CONFIG_VALID :: "world \<Rightarrow> bool" where
  "CONFIG_VALID w = (truthy_str (BRIDGE_IP w) \<and> truthy_str (HUE_APP_KEY w))"

text \<open>\<open>f"{BRIDGE_IP}"\<close>\<close>

definition bridge_ip_text :: "world \<Rightarrow> string" where
  "bridge_ip_text w = (case BRIDGE_IP w of None \<Rightarrow> ''None'' | Some ip \<Rightarrow> ip)"

text \<open>\<open>os.path.exists(path)\<close>\<close>

definition path_exists :: "world \<Rightarrow> string \<Rightarrow> bool" where
  "path_exists w path = (files w (file_of w path) \<noteq> None)"

definition write_file :: "string \<Rightarrow> file_content \<Rightarrow> world \<Rightarrow> world option" where
  "write_file path content w =
     (if writable w path
      then Some (w\<lparr>files := (files w)(file_of w path \<mapsto> content)\<rparr>)
      else None)"

text \<open>The block that creates the default ordering file when there is none.\<close>

definition create_default_ui_order :: "house_structure \<Rightarrow> world \<Rightarrow> world" where
  "create_default_ui_order house w =
     (if \<not> path_exists w UI_ORDER_FILE_PATH_DEFAULT
      then (case write_file UI_ORDER_FILE_PATH_DEFAULT (OrderingDocument (default_ui_order house)) w of
              Some w' \<Rightarrow> w'
            | None \<Rightarrow> w)
      else w)"

definition generate_hue_structure_json ::
  "string \<Rightarrow> world \<Rightarrow> py_error + (house_structure option \<times> world)" where
  "generate_hue_structure_json output_file_path w =
     (if \<not> CONFIG_VALID w then Inr (None, w)
      else
        let devices_raw = get_hue_resources (CONFIG_VALID w) (device_reply w);
            light_services_raw = get_hue_resources (CONFIG_VALID w) (light_reply w);
            rooms_raw = get_hue_resources (CONFIG_VALID w) (room_reply w)
        in case (devices_raw, light_services_raw, rooms_raw) of
             (Some (d # ds), Some (l # ls), Some (r # rs)) \<Rightarrow>
               (case build_house_structure (bridge_ip_text w) (d # ds) (l # ls) (r # rs) of
                  Inl e \<Rightarrow> Inl e
                | Inr house \<Rightarrow>
                    let w1 = create_default_ui_order house w
                    in (case write_file output_file_path (StructureDocument house) w1 of
                          Some w2 \<Rightarrow> Inr (Some house, w2)
                        | None \<Rightarrow> Inr (None, w1)))
           | _ \<Rightarrow> Inr (None, w))"

text \<open>
  The structure a run builds from the replies of the bridge, before it touches any file:
  none when the configuration is invalid, when a fetch fails or comes back empty, and when
  the builder raises.
\<close>

definition built_structure :: "world \<Rightarrow> house_structure option" where
  "built_structure w =
     (if \<not> CONFIG_VALID w then None
      else case (get_hue_resources (CONFIG_VALID w) (device_reply w),
                 get_hue_resources (CONFIG_VALID w) (light_reply w),
                 get_hue_resources (CONFIG_VALID w) (room_reply w)) of
             (Some (d # ds), Some (l # ls), Some (r # rs)) \<Rightarrow>
               (case build_house_structure (bridge_ip_text w) (d # ds) (l # ls) (r # rs) of
                  Inl e \<Rightarrow> None
                | Inr house \<Rightarrow> Some house)
           | _ \<Rightarrow> None)"

text \<open>
  Every light service of a structure document, in the order in which
  \<open>get_flat_light_services_map\<close> of Hue Control.py walks it.
\<close>

definition device_light_services :: "hue_device list \<Rightarrow> light_service list" where
  "device_light_services ds = concat (map light_services ds)"

definition room_light_services :: "room \<Rightarrow> light_service list" where
  "room_light_services r =
     concat (map (\<lambda>g. device_light_services (hue_devices g)) (device_groups r))
       @ device_light_services (standalone_devices r)"

definition house_light_services :: "house_structure \<Rightarrow> light_service list" where
  "house_light_services house = concat (map room_light_services (rooms house))"

section \<open>Bulk on/off: \<open>send_light_payload\<close> and \<open>set_lights_on_off\<close> (Hue Control.py)\<close>

text \<open>
  The two bodies a light command carries, \<open>{"on": {"on": b}}\<close> and
  \<open>{"dimming": {"brightness": x}}\<close>.
\<close>

datatype light_payload = OnPayload bool | DimmingPayload rat

text \<open>
  What the page shows, in the order of the calls: \<open>st.error\<close> of a failed command (for the
  light with that id), the progress bar (\<open>st.progress(0)\<close>, \<open>my_bar.progress((i + 1) /
  total_lights)\<close> as numerator and denominator, \<open>my_bar.empty()\<close>), the warning for an empty
  list, the toast \<open>Successfully set n light(s) on/off\<close> and the warning
  \<open>Attempted to set n light(s) on/off. k succeeded.\<close>
\<close>

datatype ui_event =
  CommandError string
  | ProgressStart
  | Progress nat nat
  | ProgressEmpty
  | NoLightsWarning
  | SuccessToast nat bool
  | AttemptedWarning nat nat bool

text \<open>
  The session a command runs in: the configuration flag of the application, the bridge
  (whether the \<open>n\<close>-th \<open>PUT\<close> it receives succeeds: the request goes through and the answer
  has no error; any pattern of outcomes is such a function), the \<open>PUT\<close>s sent so far with
  their outcomes, the events shown, and \<open>st.session_state.data_dirty\<close>.
\<close>

record session =
  APP_CONFIG_VALID :: bool
  put_succeeds :: "nat \<Rightarrow> bool"
  put_log :: "(string \<times> light_payload \<times> bool) list"
  events :: "ui_event list"
  data_dirty :: bool

definition show_event :: "ui_event \<Rightarrow> session \<Rightarrow> session" where
  "show_event e s = s\<lparr>events := events s @ [e]\<rparr>"

definition send_light_payload :: "string \<Rightarrow> light_payload \<Rightarrow> session \<Rightarrow> bool \<times> session" where
  "send_light_payload sid payload s =
     (if \<not> APP_CONFIG_VALID s then (False, s)
      else
        let ok = put_succeeds s (length (put_log s));
            s1 = s\<lparr>put_log := put_log s @ [(sid, payload, ok)]\<rparr>
        in if ok then (True, s1) else (False, show_event (CommandError sid) s1))"

text \<open>
  The \<open>for i, service_id in enumerate(service_ids)\<close> loop; its state is \<open>success_count\<close>
  and the session.
\<close>

fun on_off_loop ::
  "light_payload \<Rightarrow> nat \<Rightarrow> bool \<Rightarrow> nat \<Rightarrow> string list \<Rightarrow> nat \<times> session \<Rightarrow> nat \<times> session" where
  "on_off_loop payload total_lights my_bar i [] st = st"
| "on_off_loop payload total_lights my_bar i (sid # rest) (success_count, s) =
     (case send_light_payload sid payload s of
        (ok, s1) \<Rightarrow>
          on_off_loop payload total_lights my_bar (i + 1) rest
            (if ok then success_count + 1 else success_count,
             if my_bar then show_event (Progress (i + 1) total_lights) s1 else s1))"

definition set_lights_on_off :: "string list \<Rightarrow> bool \<Rightarrow> session \<Rightarrow> session" where
  "set_lights_on_off service_ids turn_on s =
     (if service_ids = [] then show_event NoLightsWarning s
      else
        let total_lights = length service_ids;
            my_bar = (total_lights > 1);
            s0 = (if my_bar then show_event ProgressStart s else s)
        in case on_off_loop (OnPayload turn_on) total_lights my_bar 0 service_ids (0, s0) of
             (success_count, s1) \<Rightarrow>
               let s2 = (if my_bar then show_event ProgressEmpty s1 else s1);
                   s3 = (if success_count = total_lights \<and> total_lights > 0
                         then show_event (SuccessToast success_count turn_on) s2
                         else if total_lights > 0
                         then show_event (AttemptedWarning total_lights success_count turn_on) s2
                         else s2)
               in s3\<lparr>data_dirty := True\<rparr>)"

text \<open>The commands of a log that succeeded.\<close>

definition succeeded :: "(string \<times> light_payload \<times> bool) list \<Rightarrow> (string \<times> light_payload \<times> bool) list" where
  "succeeded entries = filter (\<lambda>e. snd (snd e)) entries"

section \<open>Small houses and a session, for concrete runs\<close>

text \<open>
  The end-to-end example of the specification: two devices \<open>Lamp 1\<close> and \<open>Lamp 2\<close> in one
  room \<open>Bedroom\<close>, the first light on at brightness 80, the second off (the bridge still
  reports the brightness 30 it had before).
\<close>

definition example_device :: "string \<Rightarrow> string \<Rightarrow> raw_device" where
  "example_device i n = \<lparr>raw_device_id = Some i, raw_device_metadata = Some \<lparr>md_name = Some n\<rparr>\<rparr>"

definition example_light :: "string \<Rightarrow> string \<Rightarrow> bool \<Rightarrow> rat \<Rightarrow> raw_light" where
  "example_light i owner_id on_state b =
     \<lparr>raw_light_id = Some i,
      raw_light_owner = Some \<lparr>rid = Some owner_id, rtype = Some ''device''\<rparr>,
      raw_light_metadata = None,
      raw_light_dimming = Some \<lparr>raw_brightness = Some b\<rparr>,
      raw_light_has_color = False,
      raw_light_has_color_temperature = False,
      raw_light_on = Some \<lparr>raw_on_on = Some on_state\<rparr>\<rparr>"

definition example_room :: "string \<Rightarrow> string \<Rightarrow> string list \<Rightarrow> raw_room" where
  "example_room i n device_ids =
     \<lparr>raw_room_id = Some i,
      raw_room_metadata = Some \<lparr>md_name = Some n\<rparr>,
      raw_room_children = Some (map (\<lambda>d. \<lparr>rid = Some d, rtype = Some ''device''\<rparr>) device_ids)\<rparr>"

definition example_devices :: "raw_device list" where
  "example_devices = [example_device ''d1'' ''Lamp 1'', example_device ''d2'' ''Lamp 2'']"

definition example_lights :: "raw_light list" where
  "example_lights = [example_light ''s1'' ''d1'' True 80, example_light ''s2'' ''d2'' False 30]"

definition example_rooms :: "raw_room list" where
  "example_rooms = [example_room ''r1'' ''Bedroom'' [''d1'', ''d2'']]"

text \<open>
  The files of the examples: number 1 is the ordering file, under both spellings of its
  path, number 2 is the structure file, and every other path names file 0.
\<close>

definition example_file_of :: "string \<Rightarrow> nat" where
  "example_file_of path =
     (if path = ''reference/ui_order.json'' \<or> path = ''./reference/ui_order.json'' then 1
      else if path = ''reference/hue_light_structure.json'' then 2
      else 0)"

definition example_world :: world where
  "example_world =
     \<lparr>BRIDGE_IP = Some ''192.168.1.2'',
      HUE_APP_KEY = Some ''key'',
      device_reply = Reply None (Some example_devices),
      light_reply = Reply None (Some example_lights),
      room_reply = Reply None (Some example_rooms),
      file_of = example_file_of,
      files = (\<lambda>f. None),
      writable = (\<lambda>path. True)\<rparr>"

definition example_service_1 :: light_service where
  "example_service_1 =
     \<lparr>service_id = ''s1'', service_name = ''Lamp 1 Light'', original_metadata_name = None,
      is_on = True, supports_dimming = True, current_brightness = Some 80,
      supports_color = False, supports_color_temperature = False\<rparr>"

definition example_service_2 :: light_service where
  "example_service_2 =
     \<lparr>service_id = ''s2'', service_name = ''Lamp 2 Light'', original_metadata_name = None,
      is_on = False, supports_dimming = True, current_brightness = None,
      supports_color = False, supports_color_temperature = False\<rparr>"

definition example_lamp_1 :: hue_device where
  "example_lamp_1 =
     \<lparr>device_name = ''Lamp 1'', device_id = ''d1'', light_services = [example_service_1]\<rparr>"

definition example_lamp_2 :: hue_device where
  "example_lamp_2 =
     \<lparr>device_name = ''Lamp 2'', device_id = ''d2'', light_services = [example_service_2]\<rparr>"

definition example_bedroom :: room where
  "example_bedroom =
     \<lparr>room_name = ''Bedroom'', room_id = ''r1'',
      device_groups = [\<lparr>group_base_name = ''Lamp'', hue_devices = [example_lamp_1, example_lamp_2]\<rparr>],
      standalone_devices = []\<rparr>"

definition example_house :: house_structure where
  "example_house = \<lparr>house_name = ''Hue Setup on 192.168.1.2'', rooms = [example_bedroom]\<rparr>"

text \<open>The example world after one run that found no ordering file and wrote both files.\<close>

definition example_world_after :: world where
  "example_world_after =
     example_world\<lparr>files := (\<lambda>f. None)
        (1 \<mapsto> OrderingDocument (default_ui_order example_house),
         2 \<mapsto> StructureDocument example_house)\<rparr>"

text \<open>
  A bridge with two rooms that carry the same display name \<open>Den\<close>: the first holds the
  device \<open>Desk\<close>, the second is empty.
\<close>

definition twin_rooms :: "raw_room list" where
  "twin_rooms = [example_room ''r1'' ''Den'' [''d1''], example_room ''r2'' ''Den'' []]"

definition twin_devices :: "raw_device list" where
  "twin_devices = [example_device ''d1'' ''Desk'']"

definition twin_desk :: hue_device where
  "twin_desk =
     \<lparr>device_name = ''Desk'', device_id = ''d1'',
      light_services = [example_service_1\<lparr>service_name := ''Desk Light''\<rparr>]\<rparr>"

definition twin_house :: house_structure where
  "twin_house =
     \<lparr>house_name = ''Hue Setup on 192.168.1.2'',
      rooms = [\<lparr>room_name = ''Den'', room_id = ''r1'', device_groups = [],
                standalone_devices = [twin_desk]\<rparr>,
               \<lparr>room_name = ''Den'', room_id = ''r2'', device_groups = [],
                standalone_devices = []\<rparr>]\<rparr>"

text \<open>
  Two more bridges for the grouping: a room with the devices \<open>Lamp 1\<close>, \<open>Lamp 2\<close> and
  \<open>Desk\<close>, and a room with the single device \<open>Lamp 1\<close>.
\<close>

definition trio_devices :: "raw_device list" where
  "trio_devices = example_devices @ [example_device ''d3'' ''Desk'']"

definition trio_rooms :: "raw_room list" where
  "trio_rooms = [example_room ''r1'' ''Bedroom'' [''d1'', ''d2'', ''d3'']]"

definition trio_desk :: hue_device where
  "trio_desk = \<lparr>device_name = ''Desk'', device_id = ''d3'', light_services = []\<rparr>"

definition trio_bedroom :: room where
  "trio_bedroom =
     \<lparr>room_name = ''Bedroom'', room_id = ''r1'',
      device_groups = [\<lparr>group_base_name = ''Lamp'', hue_devices = [example_lamp_1, example_lamp_2]\<rparr>],
      standalone_devices = [trio_desk]\<rparr>"

definition trio_house :: house_structure where
  "trio_house = \<lparr>house_name = ''Hue Setup on 192.168.1.2'', rooms = [trio_bedroom]\<rparr>"

definition solo_devices :: "raw_device list" where
  "solo_devices = [example_device ''d1'' ''Lamp 1'']"

definition solo_rooms :: "raw_room list" where
  "solo_rooms = [example_room ''r1'' ''Bedroom'' [''d1'']]"

definition solo_bedroom :: room where
  "solo_bedroom =
     \<lparr>room_name = ''Bedroom'', room_id = ''r1'', device_groups = [],
      standalone_devices = [example_lamp_1]\<rparr>"

definition solo_house :: house_structure where
  "solo_house = \<lparr>house_name = ''Hue Setup on 192.168.1.2'', rooms = [solo_bedroom]\<rparr>"

text \<open>
  A bridge with two rooms, given as \<open>Bedroom\<close> (\<open>Lamp 1\<close>, \<open>Lamp 2\<close>, \<open>Desk\<close>) and then
  \<open>Attic\<close> (\<open>Fan\<close>); the same world with an ordering file written by hand, which is not
  the default ordering; and the same world where only the ordering file can be written.
\<close>

definition villa_devices :: "raw_device list" where
  "villa_devices = trio_devices @ [example_device ''d4'' ''Fan'']"

definition villa_rooms :: "raw_room list" where
  "villa_rooms = trio_rooms @ [example_room ''r2'' ''Attic'' [''d4'']]"

definition villa_attic :: room where
  "villa_attic =
     \<lparr>room_name = ''Attic'', room_id = ''r2'', device_groups = [],
      standalone_devices = [\<lparr>device_name = ''Fan'', device_id = ''d4'', light_services = []\<rparr>]\<rparr>"

definition villa_house :: house_structure where
  "villa_house =
     \<lparr>house_name = ''Hue Setup on 192.168.1.2'', rooms = [villa_attic, trio_bedroom]\<rparr>"

definition villa_world :: world where
  "villa_world =
     example_world\<lparr>device_reply := Reply None (Some villa_devices),
                   room_reply := Reply None (Some villa_rooms)\<rparr>"

definition villa_default_order :: ui_order where
  "villa_default_order =
     \<lparr>room_order = [''Attic'', ''Bedroom''],
      device_order_in_room = [(''Attic'', [''Fan'']), (''Bedroom'', [''Lamp'', ''Desk''])]\<rparr>"

definition hand_written_order :: ui_order where
  "hand_written_order =
     \<lparr>room_order = [''Bedroom''], device_order_in_room = [(''Bedroom'', [''Desk''])]\<rparr>"

definition villa_world_with_order :: world where
  "villa_world_with_order =
     villa_world\<lparr>files := (\<lambda>f. None)(1 \<mapsto> OrderingDocument hand_written_order)\<rparr>"

definition villa_world_no_save :: world where
  "villa_world_no_save =
     villa_world\<lparr>writable := (\<lambda>path. path = ''reference/ui_order.json'')\<rparr>"

text \<open>A session for concrete runs: the second command it receives fails, all others succeed.\<close>

definition example_session :: session where
  "example_session =
     \<lparr>APP_CONFIG_VALID = True,
      put_succeeds = (\<lambda>n. n \<noteq> 1),
      put_log = [],
      events = [],
      data_dirty = False\<rparr>"

section \<open>Results\<close>

subsection \<open>OrderResolver\<close>

text \<open>
  C8. With an empty preferred-key sequence, \<open>get_ordered_items\<close> returns the input items
  sorted ascending by key under string comparison, where the key of an item is its value
  under the selector and the empty string when it has none. The result is the stable sort
  of the input by that key; its keys ascend in the order of strings, which compares code
  point by code point; it holds exactly the input items, each as often as the input does;
  and the items of one key keep the order they had in the input. Two runs are evaluated:
  upper case sorts before lower case, equal keys keep their order, and an item without
  the key comes first.
\<close>

theorem get_ordered_items_no_preference:
  "get_ordered_items get_name actual_items [] =
     sort_key (\<lambda>x. case get_name x of None \<Rightarrow> [] | Some s \<Rightarrow> s) actual_items
   \<and> sorted (map (\<lambda>x. case get_name x of None \<Rightarrow> [] | Some s \<Rightarrow> s)
                (get_ordered_items get_name actual_items []))
   \<and> mset (get_ordered_items get_name actual_items []) = mset actual_items
   \<and> (\<forall>k. filter (\<lambda>x. (case get_name x of None \<Rightarrow> [] | Some s \<Rightarrow> s) = k)
              (get_ordered_items get_name actual_items [])
          = filter (\<lambda>x. (case get_name x of None \<Rightarrow> [] | Some s \<Rightarrow> s) = k) actual_items)
   \<and> get_ordered_items (\<lambda>x. Some (fst x))
         [(''b'', 1::nat), (''a'', 2), (''C'', 3), (''a'', 4), (''ab'', 5)] []
       = [(''C'', 3), (''a'', 2), (''a'', 4), (''ab'', 5), (''b'', 1)]
   \<and> get_ordered_items fst [(Some ''b'', 1::nat), (None, 2), (Some ''a'', 3)] []
       = [(None, 2), (Some ''a'', 3), (Some ''b'', 1)]"
proof -
  let ?key = "\<lambda>x. case get_name x of None \<Rightarrow> [] | Some s \<Rightarrow> s"
  have key: "sort_name get_name = ?key"
    by (rule ext) (simp add: sort_name_def)
  have run: "get_ordered_items get_name actual_items [] = sort_key ?key actual_items"
    by (simp add: get_ordered_items_def key)
  have asc: "sorted (map ?key (get_ordered_items get_name actual_items []))"
    by (simp only: run sorted_sort_key)
  have same: "mset (get_ordered_items get_name actual_items []) = mset actual_items"
    by (simp only: run mset_sort)
  have stable: "\<forall>k. filter (\<lambda>x. ?key x = k) (get_ordered_items get_name actual_items [])
          = filter (\<lambda>x. ?key x = k) actual_items"
    unfolding run by (intro allI) (rule sort_key_stable)
  have ex1: "get_ordered_items (\<lambda>x. Some (fst x))
         [(''b'', 1::nat), (''a'', 2), (''C'', 3), (''a'', 4), (''ab'', 5)] []
       = [(''C'', 3), (''a'', 2), (''a'', 4), (''ab'', 5), (''b'', 1)]"
    by (simp add: get_ordered_items_def sort_name_def less_eq_char_def less_char_def)
  have ex2: "get_ordered_items fst [(Some ''b'', 1::nat), (None, 2), (Some ''a'', 3)] []
       = [(None, 2), (Some ''a'', 3), (Some ''b'', 1)]"
    by (simp add: get_ordered_items_def sort_name_def less_eq_char_def less_char_def)
  show ?thesis by (intro conjI run asc same stable ex1 ex2)
qed

lemma items_by_name_distinct_aux:
  "distinct (map fst m @ map get_name xs) \<Longrightarrow>
   foldl (\<lambda>m item. AList.update (get_name item) item m) m xs = m @ map (\<lambda>x. (get_name x, x)) xs"
proof (induction xs arbitrary: m)
  case Nil then show ?case by simp
next
  case (Cons x xs)
  have fresh: "get_name x \<notin> fst ` set m" using Cons.prems by auto
  have upd: "AList.update (get_name x) x m = m @ [(get_name x, x)]"
    using fresh by (induction m) auto
  have "distinct (map fst (m @ [(get_name x, x)]) @ map get_name xs)"
    using Cons.prems by auto
  from Cons.IH[OF this] show ?case by (simp add: upd)
qed

lemma items_by_name_distinct:
  "distinct (map get_name xs) \<Longrightarrow> items_by_name get_name xs = map (\<lambda>x. (get_name x, x)) xs"
  using items_by_name_distinct_aux[of "[]" get_name xs] by (simp add: items_by_name_def)

lemma mset_values_delete:
  "distinct (map fst r) \<Longrightarrow> map_of r k = Some v \<Longrightarrow>
   mset (map snd r) = add_mset v (mset (map snd (AList.delete k r)))"
proof (induction r)
  case Nil then show ?case by simp
next
  case (Cons p r)
  show ?case
  proof (cases "fst p = k")
    case True
    then have "k \<notin> fst ` set r" using Cons.prems(1) by auto
    then have "AList.delete k r = r" by (induction r) (auto simp: AList.delete_eq)
    moreover have "snd p = v" using True Cons.prems(2) by (cases p) simp
    ultimately show ?thesis using True by (cases p) (simp add: AList.delete_eq)
  next
    case False
    then have "map_of r k = Some v" using Cons.prems(2) by (cases p) (simp split: if_splits)
    moreover have "distinct (map fst r)" using Cons.prems(1) by simp
    ultimately have "mset (map snd r) = add_mset v (mset (map snd (AList.delete k r)))"
      by (rule Cons.IH[rotated])
    then show ?thesis using False by (cases p) (simp add: AList.delete_eq)
  qed
qed

lemma preferred_loop_mset:
  "distinct (map fst r) \<Longrightarrow> distinct names \<Longrightarrow>
   (\<forall>n \<in> set names. map_of r (Some n) = map_of m (Some n)) \<Longrightarrow>
   preferred_loop m names (f, r) = (f', r') \<Longrightarrow>
   mset f' + mset (map snd r') = mset f + mset (map snd r)"
proof (induction names arbitrary: f r)
  case Nil then show ?case by simp
next
  case (Cons n names)
  show ?case
  proof (cases "map_of m (Some n)")
    case None
    with Cons show ?thesis by simp
  next
    case (Some item)
    let ?r = "AList.delete (Some n) r"
    have inr: "map_of r (Some n) = Some item" using Cons.prems(3) Some by simp
    have step: "preferred_loop m names (f @ [item], ?r) = (f', r')"
      using Cons.prems(4) Some inr by simp
    have d: "distinct (map fst ?r)" using Cons.prems(1) by (simp add: distinct_delete)
    have agree: "\<forall>k \<in> set names. map_of ?r (Some k) = map_of m (Some k)"
      using Cons.prems(2,3) by (auto simp: delete_conv)
    have "mset f' + mset (map snd r') = mset (f @ [item]) + mset (map snd ?r)"
      using Cons.IH[OF d _ agree step] Cons.prems(2) by simp
    also have "\<dots> = mset f + mset (map snd r)"
      using mset_values_delete[OF Cons.prems(1) inr] by simp
    finally show ?thesis .
  qed
qed

text \<open>
  When the items have pairwise distinct keys and no preferred key is repeated, the result
  holds exactly the input items.
\<close>

lemma get_ordered_items_permutation_distinct:
  assumes "distinct (map get_name actual_items)" and "distinct preferred_order_names"
  shows "mset (get_ordered_items get_name actual_items preferred_order_names) = mset actual_items"
proof (cases "preferred_order_names = []")
  case True then show ?thesis by (simp add: get_ordered_items_def)
next
  case False
  let ?m = "items_by_name get_name actual_items"
  obtain f' r' where run: "preferred_loop ?m preferred_order_names ([], ?m) = (f', r')"
    by (cases "preferred_loop ?m preferred_order_names ([], ?m)")
  have m: "?m = map (\<lambda>x. (get_name x, x)) actual_items"
    using assms(1) by (rule items_by_name_distinct)
  have d: "distinct (map fst ?m)" using assms(1) by (simp add: m comp_def)
  have "mset f' + mset (map snd r') = mset [] + mset (map snd ?m)"
    by (rule preferred_loop_mset[OF d assms(2) _ run]) simp
  also have "\<dots> = mset actual_items" by (simp add: m comp_def)
  finally show ?thesis using False run by (simp add: get_ordered_items_def)
qed

text \<open>
  C1. The claim: for every list of items and every sequence of preferred keys the result is
  a permutation of the input, and repeated or unknown preferred keys produce no entry.
  The code does not do this. A preferred key that occurs twice emits its item twice: the
  test \<open>name in remaining_items_map\<close> guards the deletion only, not the append. And when
  the preferred sequence is not empty, items that share a key are collapsed by the lookup
  dictionary, so only the last of them is returned. Both runs are evaluated here.
\<close>

theorem get_ordered_items_repeats_and_drops:
  "get_ordered_items (\<lambda>x. Some (fst x)) [(''A'', 1::nat)] [''A'', ''A'']
     = [(''A'', 1), (''A'', 1)]
   \<and> get_ordered_items (\<lambda>x. Some (fst x)) [(''A'', 1::nat), (''A'', 2)] [''Z'']
     = [(''A'', 2)]"
  by (simp add: get_ordered_items_def items_by_name_def sort_name_def)

subsection \<open>NameNormalizer\<close>

lemma space_not_digit: "is_space c \<Longrightarrow> \<not> is_digit c"
  by (auto simp: is_space_def is_digit_def)

lemma newline_is_space: "is_space (CHR 0x0A)"
  by (simp add: is_space_def)

lemma sub_trailing_number_newline: "sub_trailing_number [CHR 0x0A] = [CHR 0x0A]"
  by (simp add: match_trailing_number_def is_space_def)

lemma sub_trailing_number_skip:
  "(\<And>i. i < length p \<Longrightarrow> match_trailing_number (drop i p @ m) = None) \<Longrightarrow>
   sub_trailing_number (p @ m) = p @ sub_trailing_number m"
proof (induction p)
  case Nil then show ?case by simp
next
  case (Cons c p)
  have "match_trailing_number ((c # p) @ m) = None" using Cons.prems[of 0] by simp
  moreover have "sub_trailing_number (p @ m) = p @ sub_trailing_number m"
  proof (rule Cons.IH)
    fix i assume "i < length p"
    then show "match_trailing_number (drop i p @ m) = None"
      using Cons.prems[of "Suc i"] by simp
  qed
  ultimately show ?case by simp
qed

lemma match_trailing_number_here:
  assumes w: "\<forall>c \<in> set w. is_space c" and ds: "\<forall>c \<in> set ds. is_digit c" and ne: "ds \<noteq> []"
    and nl: "nl = [] \<or> nl = [CHR 0x0A]"
  shows "match_trailing_number (w @ ds @ nl) = Some nl"
proof -
  obtain d ds' where dsc: "ds = d # ds'" using ne by (cases ds) auto
  have nsd: "\<not> is_space d" using ds dsc space_not_digit by auto
  have a: "dropWhile is_space (w @ ds @ nl) = ds @ nl"
    using w nsd by (simp add: dropWhile_append2 dsc)
  have nd: "\<not> is_digit (CHR 0x0A)" by (simp add: is_digit_def)
  have t: "takeWhile is_digit (ds @ nl) = ds"
    using ds nl nd by (auto simp: takeWhile_append2)
  have r: "dropWhile is_digit (ds @ nl) = nl"
    using ds nl nd by (auto simp: dropWhile_append2)
  show ?thesis unfolding match_trailing_number_def Let_def a t r using ne nl by auto
qed

lemma match_trailing_number_none:
  assumes q: "q \<noteq> []" and lq: "\<not> is_space (last q)"
    and wd: "w = [] \<longrightarrow> \<not> is_digit (last q)"
    and w: "\<forall>c \<in> set w. is_space c" and ne: "ds \<noteq> []"
  shows "match_trailing_number (q @ w @ ds @ nl) = None"
proof -
  let ?X = "w @ ds @ nl"
  have "last q \<in> set q" using q by simp
  then have a: "dropWhile is_space (q @ ?X) = dropWhile is_space q @ ?X"
    using lq by (meson dropWhile_append1)
  define q' where "q' = dropWhile is_space q"
  have q'ne: "q' \<noteq> []" unfolding q'_def using \<open>last q \<in> set q\<close> lq by (auto simp: dropWhile_eq_Nil_conv)
  have lq': "last q' = last q"
  proof -
    have "q = takeWhile is_space q @ q'" by (simp add: q'_def)
    then show ?thesis using q'ne by (metis last_appendR)
  qed
  have "2 \<le> length (dropWhile is_digit (q' @ ?X))"
  proof (cases "\<forall>c \<in> set q'. is_digit c")
    case True
    then have "is_digit (last q)" using q'ne lq' by (metis last_in_set)
    then have "w \<noteq> []" using wd by auto
    then obtain w0 w' where wc: "w = w0 # w'" by (cases w) auto
    have "\<not> is_digit w0" using w wc space_not_digit by auto
    then have "dropWhile is_digit (q' @ ?X) = ?X"
      using True by (simp add: dropWhile_append2 wc)
    then show ?thesis using ne wc by (cases ds) auto
  next
    case False
    then obtain x where "x \<in> set q'" "\<not> is_digit x" by auto
    then have "dropWhile is_digit (q' @ ?X) = dropWhile is_digit q' @ ?X"
      by (meson dropWhile_append1)
    moreover have "dropWhile is_digit q' \<noteq> []"
      using False by (auto simp: dropWhile_eq_Nil_conv)
    ultimately show ?thesis using ne
      by (cases "dropWhile is_digit q'"; cases ds) auto
  qed
  then have len: "2 \<le> length (dropWhile is_digit (dropWhile is_space (q @ ?X)))"
    unfolding a q'_def by simp
  define R where "R = dropWhile is_digit (dropWhile is_space (q @ ?X))"
  have "R \<noteq> [] \<and> R \<noteq> [CHR 0x0A]" using len unfolding R_def[symmetric] by auto
  then show ?thesis unfolding match_trailing_number_def Let_def R_def[symmetric] by simp
qed

lemma match_trailing_number_ends_in_digit:
  assumes "match_trailing_number u = Some rest"
  shows "chomp (p @ u) \<noteq> [] \<and> is_digit (last (chomp (p @ u)))"
proof -
  let ?a = "dropWhile is_space u"
  let ?d = "takeWhile is_digit ?a"
  from assms have r: "rest = dropWhile is_digit ?a" and d: "?d \<noteq> []"
    and rc: "rest = [] \<or> rest = [CHR 0x0A]"
    by (auto simp: match_trailing_number_def Let_def split: if_splits)
  have u: "u = takeWhile is_space u @ ?d @ rest"
    unfolding r by simp
  have ld: "is_digit (last ?d)"
    using d by (metis last_in_set set_takeWhileD)
  have nd: "\<not> is_digit (CHR 0x0A)" by (simp add: is_digit_def)
  let ?body = "p @ takeWhile is_space u @ ?d"
  have pu: "p @ u = ?body @ rest" using u by simp
  have lb: "last ?body = last ?d" "?body \<noteq> []" using d by auto
  from rc show ?thesis
  proof
    assume "rest = []"
    then have "p @ u = ?body" using pu by simp
    moreover have "last ?body \<noteq> CHR 0x0A" using lb ld nd by metis
    ultimately show ?thesis using lb ld by (simp add: chomp_def)
  next
    assume "rest = [CHR 0x0A]"
    then have "p @ u = ?body @ [CHR 0x0A]" using pu by simp
    moreover have "chomp (xs @ [CHR 0x0A]) = xs" for xs
      unfolding chomp_def by (simp only: butlast_snoc last_snoc) simp
    ultimately have "chomp (p @ u) = ?body" by (simp only:)
    then show ?thesis using lb ld by (simp only:) simp
  qed
qed

lemma chomp_split: "\<exists>nl. s = chomp s @ nl \<and> (nl = [] \<or> nl = [CHR 0x0A])"
proof (cases "s \<noteq> [] \<and> last s = CHR 0x0A")
  case True
  then have "s = butlast s @ [CHR 0x0A]" by (metis append_butlast_last_id)
  then show ?thesis using True by (auto simp: chomp_def)
next
  case False
  then show ?thesis by (auto simp: chomp_def)
qed

lemma strip_trailing_number_split:
  assumes "takeWhile is_digit (rev t) \<noteq> []"
  shows "\<exists>w ds. t = strip_trailing_number t @ w @ ds \<and> (\<forall>c \<in> set w. is_space c)
           \<and> (\<forall>c \<in> set ds. is_digit c) \<and> ds \<noteq> []
           \<and> (strip_trailing_number t \<noteq> [] \<longrightarrow>
                 \<not> is_space (last (strip_trailing_number t))
                 \<and> (w = [] \<longrightarrow> \<not> is_digit (last (strip_trailing_number t))))"
proof -
  let ?r = "rev t"
  let ?ds = "rev (takeWhile is_digit ?r)"
  let ?b = "dropWhile is_digit ?r"
  let ?w = "rev (takeWhile is_space ?b)"
  let ?p = "rev (dropWhile is_space ?b)"
  have p: "strip_trailing_number t = ?p" using assms by (simp add: strip_trailing_number_def)
  have "rev (?p @ ?w @ ?ds) = ?r" by simp
  then have t: "t = ?p @ ?w @ ?ds" by (metis rev_rev_ident)
  have w: "\<forall>c \<in> set ?w. is_space c" by (auto dest: set_takeWhileD)
  have ds: "\<forall>c \<in> set ?ds. is_digit c" by (auto dest: set_takeWhileD)
  have ne: "?ds \<noteq> []" using assms by simp
  have last: "?p \<noteq> [] \<longrightarrow> \<not> is_space (last ?p) \<and> (?w = [] \<longrightarrow> \<not> is_digit (last ?p))"
  proof
    assume pne: "?p \<noteq> []"
    then have dne: "dropWhile is_space ?b \<noteq> []" by simp
    have lp: "last ?p = hd (dropWhile is_space ?b)" using dne by (simp add: last_rev)
    have "\<not> is_space (hd (dropWhile is_space ?b))" using dne by (rule hd_dropWhile)
    moreover have "\<not> is_digit (hd (dropWhile is_space ?b))" if "?w = []"
    proof -
      from that have "takeWhile is_space ?b = []" by simp
      then have e: "dropWhile is_space ?b = ?b" by (metis append_Nil takeWhile_dropWhile_id)
      then have "?b \<noteq> []" using dne by simp
      then have "\<not> is_digit (hd ?b)" by (rule hd_dropWhile)
      then show ?thesis using e by simp
    qed
    ultimately show "\<not> is_space (last ?p) \<and> (?w = [] \<longrightarrow> \<not> is_digit (last ?p))"
      using lp by simp
  qed
  show ?thesis
    apply (rule exI[of _ ?w], rule exI[of _ ?ds])
    using t w ds ne last unfolding p by blast
qed

lemma sub_trailing_number_spec:
  "filter (\<lambda>c. \<not> is_space c) (sub_trailing_number s)
   = filter (\<lambda>c. \<not> is_space c) (strip_trailing_number (chomp s))"
proof -
  obtain nl where s: "s = chomp s @ nl" and nl: "nl = [] \<or> nl = [CHR 0x0A]"
    using chomp_split by blast
  have fnl: "filter (\<lambda>c. \<not> is_space c) nl = []" using nl newline_is_space by auto
  have subnl: "sub_trailing_number nl = nl" using nl sub_trailing_number_newline by auto
  show ?thesis
  proof (cases "takeWhile is_digit (rev (chomp s)) = []")
    case True
    have nodigit: "chomp s = [] \<or> \<not> is_digit (last (chomp s))"
      using True by (simp add: takeWhile_eq_Nil_iff hd_rev)
    have "sub_trailing_number (s @ []) = s @ sub_trailing_number []"
    proof (rule sub_trailing_number_skip)
      fix i assume "i < length s"
      show "match_trailing_number (drop i s @ []) = None"
      proof (rule ccontr)
        assume "match_trailing_number (drop i s @ []) \<noteq> None"
        then obtain rest where "match_trailing_number (drop i s) = Some rest" by auto
        from match_trailing_number_ends_in_digit[OF this, of "take i s"]
        show False using nodigit by simp
      qed
    qed
    then have "sub_trailing_number s = s" by simp
    moreover have "strip_trailing_number (chomp s) = chomp s"
      using True by (simp add: strip_trailing_number_def)
    moreover have "filter (\<lambda>c. \<not> is_space c) s = filter (\<lambda>c. \<not> is_space c) (chomp s)"
      using fnl by (subst s) simp
    ultimately show ?thesis by simp
  next
    case False
    let ?p = "strip_trailing_number (chomp s)"
    from strip_trailing_number_split[OF False] obtain w ds where
      t: "chomp s = ?p @ w @ ds" and w: "\<forall>c \<in> set w. is_space c"
      and ds: "\<forall>c \<in> set ds. is_digit c" and ne: "ds \<noteq> []"
      and lp: "?p \<noteq> [] \<longrightarrow> \<not> is_space (last ?p) \<and> (w = [] \<longrightarrow> \<not> is_digit (last ?p))"
      by blast
    have s': "s = ?p @ (w @ ds @ nl)" using s t by (metis append.assoc)
    have "sub_trailing_number (?p @ (w @ ds @ nl)) = ?p @ sub_trailing_number (w @ ds @ nl)"
    proof (rule sub_trailing_number_skip)
      fix i assume i: "i < length ?p"
      then have q: "drop i ?p \<noteq> []" by simp
      have lq: "last (drop i ?p) = last ?p" using i by (simp add: last_drop)
      have pne: "?p \<noteq> []" using i by auto
      show "match_trailing_number (drop i ?p @ w @ ds @ nl) = None"
        by (rule match_trailing_number_none[OF q _ _ w ne]) (use lp pne lq in auto)
    qed
    moreover have "sub_trailing_number (w @ ds @ nl) = nl"
    proof -
      have m: "match_trailing_number (w @ ds @ nl) = Some nl"
        by (rule match_trailing_number_here[OF w ds ne nl])
      obtain c cs where c: "w @ ds @ nl = c # cs" using ne by (cases "w @ ds @ nl") auto
      show ?thesis using m subnl unfolding c by simp
    qed
    ultimately have "sub_trailing_number s = ?p @ nl" using s' by simp
    then show ?thesis using fnl by simp
  qed
qed

text \<open>
  C2, as the claim states it, fails: the sentinel is returned for the empty raw name only,
  before anything is stripped. A name made of digits is stripped to the empty string and
  the empty string is returned.
\<close>

theorem normalize_device_name_digits_only:
  "strip_trailing_number ''1'' = [] \<and> normalize_device_name ''1'' = []
   \<and> normalize_device_name ''1'' \<noteq> ''UnnamedDevice''"
  by (simp add: normalize_device_name_def match_trailing_number_def strip_trailing_number_def
      is_space_def is_digit_def)

text \<open>
  C2, amended. For every raw device name over the code points below 256, with whitespace
  and digits as Python's \<open>\s\<close> and \<open>\d\<close> class them there (\<open>is_space\<close>, which holds the
  next-line control and the no-break space, and \<open>is_digit\<close>): the empty name gives the
  sentinel \<open>UnnamedDevice\<close>; any other name loses one trailing run of whitespace followed
  by digits (a single final line feed after the digits is set aside) and then all its
  whitespace, and the result may be empty. The function is total. The examples of the
  claim hold, and a no-break space before the number or inside the name goes like a space.
\<close>

theorem normalize_device_name_amended:
  "normalize_device_name name =
     (if name = [] then ''UnnamedDevice''
      else filter (\<lambda>c. \<not> is_space c) (strip_trailing_number (chomp name)))
   \<and> normalize_device_name ''Lamp 1'' = ''Lamp''
   \<and> normalize_device_name ''Lamp 2'' = ''Lamp''
   \<and> normalize_device_name ''Office Lamp'' = ''OfficeLamp''
   \<and> normalize_device_name '''' = ''UnnamedDevice''
   \<and> normalize_device_name (''Lamp'' @ [CHR 0xA0] @ ''2'') = ''Lamp''
   \<and> normalize_device_name (''Office'' @ [CHR 0xA0] @ ''Lamp'') = ''OfficeLamp''
   \<and> normalize_device_name (''Lamp'' @ [CHR 0x85] @ ''12'' @ [CHR 0x0A]) = ''Lamp''"
proof -
  have "normalize_device_name name =
     (if name = [] then ''UnnamedDevice''
      else filter (\<lambda>c. \<not> is_space c) (strip_trailing_number (chomp name)))"
    by (simp add: normalize_device_name_def sub_trailing_number_spec)
  moreover have "normalize_device_name ''Lamp 1'' = ''Lamp''"
    by (simp add: normalize_device_name_def match_trailing_number_def is_space_def is_digit_def)
  moreover have "normalize_device_name ''Lamp 2'' = ''Lamp''"
    by (simp add: normalize_device_name_def match_trailing_number_def is_space_def is_digit_def)
  moreover have "normalize_device_name ''Office Lamp'' = ''OfficeLamp''"
    by (simp add: normalize_device_name_def match_trailing_number_def is_space_def is_digit_def)
  moreover have "normalize_device_name '''' = ''UnnamedDevice''"
    by (simp add: normalize_device_name_def)
  moreover have "normalize_device_name (''Lamp'' @ [CHR 0xA0] @ ''2'') = ''Lamp''"
    by (simp add: normalize_device_name_def match_trailing_number_def is_space_def is_digit_def)
  moreover have "normalize_device_name (''Office'' @ [CHR 0xA0] @ ''Lamp'') = ''OfficeLamp''"
    by (simp add: normalize_device_name_def match_trailing_number_def is_space_def is_digit_def)
  moreover have "normalize_device_name (''Lamp'' @ [CHR 0x85] @ ''12'' @ [CHR 0x0A]) = ''Lamp''"
    by (simp add: normalize_device_name_def match_trailing_number_def is_space_def is_digit_def)
  ultimately show ?thesis by (intro conjI)
qed

subsection \<open>StructureBuilder: evaluation of the example and the shape of a run\<close>

lemmas example_defs =
  example_device_def example_light_def example_room_def example_devices_def example_lights_def
  example_rooms_def example_service_1_def example_service_2_def example_lamp_1_def
  example_lamp_2_def example_bedroom_def example_house_def

lemma normalize_lamp_1: "normalize_device_name ''Lamp 1'' = ''Lamp''"
  by (simp add: normalize_device_name_def match_trailing_number_def is_space_def is_digit_def)

lemma normalize_lamp_2: "normalize_device_name ''Lamp 2'' = ''Lamp''"
  by (simp add: normalize_device_name_def match_trailing_number_def is_space_def is_digit_def)

lemma example_build:
  "build_house_structure ''192.168.1.2'' example_devices example_lights example_rooms
     = Inr example_house"
  by (simp add: build_house_structure_def build_room_def add_device_detail_def
      add_light_service_def make_light_service_def add_room_device_def populate_room_def
      room_hue_device_ids_def metadata_name_def get_list_def example_defs
      normalize_lamp_1 normalize_lamp_2)

lemma example_config_valid: "CONFIG_VALID example_world"
  by (simp add: CONFIG_VALID_def truthy_str_def example_world_def)

lemma example_world_fields:
  "BRIDGE_IP example_world = Some ''192.168.1.2''"
  "HUE_APP_KEY example_world = Some ''key''"
  "device_reply example_world = Reply None (Some example_devices)"
  "light_reply example_world = Reply None (Some example_lights)"
  "room_reply example_world = Reply None (Some example_rooms)"
  "files example_world = (\<lambda>f. None)"
  "writable example_world = (\<lambda>path. True)"
  "file_of example_world = example_file_of"
  by (simp_all add: example_world_def)

lemma example_file_numbers:
  "example_file_of UI_ORDER_FILE_PATH_DEFAULT = 1"
  "example_file_of ''./reference/ui_order.json'' = 1"
  "example_file_of DEFAULT_OUTPUT_FILE = 2"
  by (simp_all add: example_file_of_def UI_ORDER_FILE_PATH_DEFAULT_def DEFAULT_OUTPUT_FILE_def)

lemma example_fetches:
  "get_hue_resources True (Reply None (Some xs)) = Some xs"
  by (simp add: get_hue_resources_def)

lemma example_lists:
  "example_devices = example_device ''d1'' ''Lamp 1'' # [example_device ''d2'' ''Lamp 2'']"
  "example_lights = example_light ''s1'' ''d1'' True 80 # [example_light ''s2'' ''d2'' False 30]"
  "example_rooms = example_room ''r1'' ''Bedroom'' [''d1'', ''d2''] # []"
  by (simp_all add: example_devices_def example_lights_def example_rooms_def)

lemma generate_built:
  assumes "CONFIG_VALID w"
    and "get_hue_resources True (device_reply w) = Some ds" "ds \<noteq> []"
    and "get_hue_resources True (light_reply w) = Some ls" "ls \<noteq> []"
    and "get_hue_resources True (room_reply w) = Some rs" "rs \<noteq> []"
    and "build_house_structure (bridge_ip_text w) ds ls rs = Inr house"
  shows "generate_hue_structure_json p w =
     (case write_file p (StructureDocument house) (create_default_ui_order house w) of
        Some w2 \<Rightarrow> Inr (Some house, w2)
      | None \<Rightarrow> Inr (None, create_default_ui_order house w))"
proof -
  obtain d ds' where ds: "ds = d # ds'" using assms(3) by (cases ds) auto
  obtain l ls' where ls: "ls = l # ls'" using assms(5) by (cases ls) auto
  obtain r rs' where rs: "rs = r # rs'" using assms(7) by (cases rs) auto
  show ?thesis
    using assms unfolding ds ls rs
    by (simp add: generate_hue_structure_json_def Let_def)
qed

lemma generate_SomeD:
  assumes "generate_hue_structure_json p w = Inr (Some house, w')"
  shows "\<exists>ds ls rs. CONFIG_VALID w
      \<and> get_hue_resources True (device_reply w) = Some ds
      \<and> get_hue_resources True (light_reply w) = Some ls
      \<and> get_hue_resources True (room_reply w) = Some rs
      \<and> build_house_structure (bridge_ip_text w) ds ls rs = Inr house
      \<and> write_file p (StructureDocument house) (create_default_ui_order house w) = Some w'"
  using assms
  by (auto simp: generate_hue_structure_json_def Let_def
      split: if_splits option.splits list.splits sum.splits)

lemma example_generate:
  "generate_hue_structure_json DEFAULT_OUTPUT_FILE example_world =
     Inr (Some example_house,
          example_world\<lparr>files := (\<lambda>f. None)
             (1 \<mapsto> OrderingDocument (default_ui_order example_house),
              2 \<mapsto> StructureDocument example_house)\<rparr>)"
proof -
  have b: "build_house_structure (bridge_ip_text example_world) example_devices example_lights
             example_rooms = Inr example_house"
    by (simp add: bridge_ip_text_def example_world_fields example_build)
  have "generate_hue_structure_json DEFAULT_OUTPUT_FILE example_world =
     (case write_file DEFAULT_OUTPUT_FILE (StructureDocument example_house)
             (create_default_ui_order example_house example_world) of
        Some w2 \<Rightarrow> Inr (Some example_house, w2)
      | None \<Rightarrow> Inr (None, create_default_ui_order example_house example_world))"
    by (rule generate_built[OF example_config_valid _ _ _ _ _ _ b])
       (simp_all add: example_world_fields example_fetches example_lists)
  then show ?thesis
    by (simp add: create_default_ui_order_def write_file_def path_exists_def
        example_world_fields example_file_numbers)
qed

subsection \<open>StructureBuilder: fetch failures\<close>

text \<open>
  C3. Whenever one of the three fetches (devices, light services, rooms) fails to obtain
  its list, the run returns no document, and it leaves every file as it was; in particular
  when the room fetch fails while the other two succeed.
\<close>

theorem generate_aborts_on_fetch_failure:
  assumes "get_hue_resources (CONFIG_VALID w) (device_reply w) = None
         \<or> get_hue_resources (CONFIG_VALID w) (light_reply w) = None
         \<or> get_hue_resources (CONFIG_VALID w) (room_reply w) = None"
  shows "generate_hue_structure_json output_file_path w = Inr (None, w)"
  using assms
  by (auto simp: generate_hue_structure_json_def Let_def split: option.splits list.splits)

theorem generate_aborts_on_fetch_failure_witness:
  "get_hue_resources (CONFIG_VALID (example_world\<lparr>room_reply := RequestException\<rparr>))
       (device_reply (example_world\<lparr>room_reply := RequestException\<rparr>)) = Some example_devices
   \<and> get_hue_resources (CONFIG_VALID (example_world\<lparr>room_reply := RequestException\<rparr>))
       (light_reply (example_world\<lparr>room_reply := RequestException\<rparr>)) = Some example_lights
   \<and> get_hue_resources (CONFIG_VALID (example_world\<lparr>room_reply := RequestException\<rparr>))
       (room_reply (example_world\<lparr>room_reply := RequestException\<rparr>)) = None
   \<and> generate_hue_structure_json DEFAULT_OUTPUT_FILE (example_world\<lparr>room_reply := RequestException\<rparr>)
       = Inr (None, example_world\<lparr>room_reply := RequestException\<rparr>)"
proof -
  let ?w = "example_world\<lparr>room_reply := RequestException\<rparr>"
  have cv: "CONFIG_VALID ?w"
    by (simp add: CONFIG_VALID_def truthy_str_def example_world_fields)
  have r: "get_hue_resources (CONFIG_VALID ?w) (room_reply ?w) = None"
    by (simp add: get_hue_resources_def cv)
  have d: "get_hue_resources (CONFIG_VALID ?w) (device_reply ?w) = Some example_devices"
    by (simp add: get_hue_resources_def cv example_world_fields)
  have l: "get_hue_resources (CONFIG_VALID ?w) (light_reply ?w) = Some example_lights"
    by (simp add: get_hue_resources_def cv example_world_fields)
  from r have "generate_hue_structure_json DEFAULT_OUTPUT_FILE ?w = Inr (None, ?w)"
    by (intro generate_aborts_on_fetch_failure) simp
  with d l r show ?thesis by (simp only: simp_thms)
qed

text \<open>
  C10. When one of the three fetches succeeds but returns an empty list (for example a
  bridge with no rooms), the run ends exactly as for a failed fetch: no document, and
  every file as it was.
\<close>

theorem generate_aborts_on_empty_resource:
  assumes "get_hue_resources (CONFIG_VALID w) (device_reply w) = Some []
         \<or> get_hue_resources (CONFIG_VALID w) (light_reply w) = Some []
         \<or> get_hue_resources (CONFIG_VALID w) (room_reply w) = Some []"
  shows "generate_hue_structure_json output_file_path w = Inr (None, w)"
  using assms
  by (auto simp: generate_hue_structure_json_def Let_def split: option.splits list.splits)

theorem generate_aborts_on_empty_resource_witness:
  "get_hue_resources (CONFIG_VALID (example_world\<lparr>room_reply := Reply None (Some [])\<rparr>))
       (device_reply (example_world\<lparr>room_reply := Reply None (Some [])\<rparr>)) = Some example_devices
   \<and> get_hue_resources (CONFIG_VALID (example_world\<lparr>room_reply := Reply None (Some [])\<rparr>))
       (light_reply (example_world\<lparr>room_reply := Reply None (Some [])\<rparr>)) = Some example_lights
   \<and> get_hue_resources (CONFIG_VALID (example_world\<lparr>room_reply := Reply None (Some [])\<rparr>))
       (room_reply (example_world\<lparr>room_reply := Reply None (Some [])\<rparr>)) = Some []
   \<and> generate_hue_structure_json DEFAULT_OUTPUT_FILE (example_world\<lparr>room_reply := Reply None (Some [])\<rparr>)
       = Inr (None, example_world\<lparr>room_reply := Reply None (Some [])\<rparr>)"
proof -
  let ?w = "example_world\<lparr>room_reply := Reply None (Some [])\<rparr>"
  have cv: "CONFIG_VALID ?w"
    by (simp add: CONFIG_VALID_def truthy_str_def example_world_fields)
  have r: "get_hue_resources (CONFIG_VALID ?w) (room_reply ?w) = Some []"
    by (simp add: get_hue_resources_def cv)
  have d: "get_hue_resources (CONFIG_VALID ?w) (device_reply ?w) = Some example_devices"
    by (simp add: get_hue_resources_def cv example_world_fields)
  have l: "get_hue_resources (CONFIG_VALID ?w) (light_reply ?w) = Some example_lights"
    by (simp add: get_hue_resources_def cv example_world_fields)
  from r have "generate_hue_structure_json DEFAULT_OUTPUT_FILE ?w = Inr (None, ?w)"
    by (intro generate_aborts_on_empty_resource) simp
  with d l r show ?thesis by (simp only: simp_thms)
qed

subsection \<open>StructureBuilder: regeneration\<close>

lemma create_default_ui_order_fields:
  "BRIDGE_IP (create_default_ui_order house w) = BRIDGE_IP w"
  "HUE_APP_KEY (create_default_ui_order house w) = HUE_APP_KEY w"
  "device_reply (create_default_ui_order house w) = device_reply w"
  "light_reply (create_default_ui_order house w) = light_reply w"
  "room_reply (create_default_ui_order house w) = room_reply w"
  "writable (create_default_ui_order house w) = writable w"
  "file_of (create_default_ui_order house w) = file_of w"
  by (simp_all add: create_default_ui_order_def write_file_def)

lemma write_file_fields:
  assumes "write_file p c w = Some w'"
  shows "BRIDGE_IP w' = BRIDGE_IP w" "HUE_APP_KEY w' = HUE_APP_KEY w"
    "device_reply w' = device_reply w" "light_reply w' = light_reply w"
    "room_reply w' = room_reply w" "writable w' = writable w" "writable w p"
    "file_of w' = file_of w" "files w' = (files w)(file_of w p \<mapsto> c)"
  using assms by (auto simp: write_file_def split: if_splits)

lemma generate_SomeD_nonempty:
  assumes "generate_hue_structure_json p w = Inr (Some house, w')"
  shows "\<exists>ds ls rs. CONFIG_VALID w
      \<and> get_hue_resources True (device_reply w) = Some ds \<and> ds \<noteq> []
      \<and> get_hue_resources True (light_reply w) = Some ls \<and> ls \<noteq> []
      \<and> get_hue_resources True (room_reply w) = Some rs \<and> rs \<noteq> []
      \<and> build_house_structure (bridge_ip_text w) ds ls rs = Inr house
      \<and> write_file p (StructureDocument house) (create_default_ui_order house w) = Some w'"
  using assms
  by (auto simp: generate_hue_structure_json_def Let_def
      split: if_splits option.splits list.splits sum.splits)

text \<open>
  C7. Running the build twice on identical raw inputs yields identical structure
  documents. Two runs that see the same three bridge replies and the same bridge address
  and both produce a document produce the same one, whatever the files and the output
  paths are; and a run made right after a run that produced a document, on the world that
  run left behind, produces that document again.
\<close>

theorem generate_same_inputs_same_document:
  "(device_reply w = device_reply w' \<and> light_reply w = light_reply w'
      \<and> room_reply w = room_reply w' \<and> BRIDGE_IP w = BRIDGE_IP w'
      \<and> generate_hue_structure_json p w = Inr (Some house, v)
      \<and> generate_hue_structure_json p' w' = Inr (Some house', v')
    \<longrightarrow> house' = house)
   \<and> (generate_hue_structure_json p w = Inr (Some house, v)
    \<longrightarrow> (\<exists>v2. generate_hue_structure_json p v = Inr (Some house, v2)))"
proof (intro conjI impI)
  assume a: "device_reply w = device_reply w' \<and> light_reply w = light_reply w'
      \<and> room_reply w = room_reply w' \<and> BRIDGE_IP w = BRIDGE_IP w'
      \<and> generate_hue_structure_json p w = Inr (Some house, v)
      \<and> generate_hue_structure_json p' w' = Inr (Some house', v')"
  from a generate_SomeD[of p w house v] obtain ds ls rs where
    1: "get_hue_resources True (device_reply w) = Some ds"
       "get_hue_resources True (light_reply w) = Some ls"
       "get_hue_resources True (room_reply w) = Some rs"
       "build_house_structure (bridge_ip_text w) ds ls rs = Inr house"
    by blast
  from a generate_SomeD[of p' w' house' v'] obtain ds' ls' rs' where
    2: "get_hue_resources True (device_reply w') = Some ds'"
       "get_hue_resources True (light_reply w') = Some ls'"
       "get_hue_resources True (room_reply w') = Some rs'"
       "build_house_structure (bridge_ip_text w') ds' ls' rs' = Inr house'"
    by blast
  have "ds' = ds" "ls' = ls" "rs' = rs" using a 1 2 by simp_all
  moreover have "bridge_ip_text w' = bridge_ip_text w" using a by (simp add: bridge_ip_text_def)
  ultimately show "house' = house" using 1(4) 2(4) by simp
next
  assume a: "generate_hue_structure_json p w = Inr (Some house, v)"
  from generate_SomeD_nonempty[OF a] obtain ds ls rs where
    cv: "CONFIG_VALID w"
    and d: "get_hue_resources True (device_reply w) = Some ds" "ds \<noteq> []"
    and l: "get_hue_resources True (light_reply w) = Some ls" "ls \<noteq> []"
    and r: "get_hue_resources True (room_reply w) = Some rs" "rs \<noteq> []"
    and b: "build_house_structure (bridge_ip_text w) ds ls rs = Inr house"
    and wr: "write_file p (StructureDocument house) (create_default_ui_order house w) = Some v"
    by blast
  note vf = write_file_fields[OF wr, unfolded create_default_ui_order_fields]
  have cv': "CONFIG_VALID v" using cv by (simp add: CONFIG_VALID_def vf)
  have b': "build_house_structure (bridge_ip_text v) ds ls rs = Inr house"
    using b by (simp add: bridge_ip_text_def vf)
  have g: "generate_hue_structure_json p v =
     (case write_file p (StructureDocument house) (create_default_ui_order house v) of
        Some w2 \<Rightarrow> Inr (Some house, w2)
      | None \<Rightarrow> Inr (None, create_default_ui_order house v))"
    by (rule generate_built[OF cv' _ d(2) _ l(2) _ r(2) b']) (simp_all add: vf d l r)
  have "writable (create_default_ui_order house v) p"
    using vf by (simp add: create_default_ui_order_fields)
  then show "\<exists>v2. generate_hue_structure_json p v = Inr (Some house, v2)"
    unfolding g by (simp add: write_file_def)
qed

theorem generate_same_inputs_same_document_witness:
  "generate_hue_structure_json DEFAULT_OUTPUT_FILE example_world
     = Inr (Some example_house, example_world_after)
   \<and> files example_world_after \<noteq> files example_world
   \<and> (\<exists>v2. generate_hue_structure_json DEFAULT_OUTPUT_FILE example_world_after
             = Inr (Some example_house, v2))"
proof -
  have g: "generate_hue_structure_json DEFAULT_OUTPUT_FILE example_world
     = Inr (Some example_house, example_world_after)"
    by (simp add: example_generate example_world_after_def)
  have "files example_world_after 2 \<noteq> files example_world 2"
    by (simp add: example_world_after_def example_world_fields)
  then have f: "files example_world_after \<noteq> files example_world" by metis
  obtain v2 where g2: "generate_hue_structure_json DEFAULT_OUTPUT_FILE example_world_after
             = Inr (Some example_house, v2)"
    using generate_same_inputs_same_document[of example_world example_world
        DEFAULT_OUTPUT_FILE example_house example_world_after] g by blast
  have same: "device_reply example_world = device_reply example_world_after
      \<and> light_reply example_world = light_reply example_world_after
      \<and> room_reply example_world = room_reply example_world_after
      \<and> BRIDGE_IP example_world = BRIDGE_IP example_world_after"
    by (simp add: example_world_after_def)
  have "example_house = example_house"
    using generate_same_inputs_same_document[of example_world example_world_after
        DEFAULT_OUTPUT_FILE example_house example_world_after DEFAULT_OUTPUT_FILE
        example_house v2] same g g2 by blast
  with g f g2 show ?thesis by blast
qed

subsection \<open>StructureBuilder: light services\<close>

lemma foldl_invariant:
  assumes "I s" and "\<And>s x. I s \<Longrightarrow> x \<in> set xs \<Longrightarrow> I (f s x)"
  shows "I (foldl f s xs)"
  using assms by (induction xs arbitrary: s) auto

lemma set_update_subset: "set (AList.update k v al) \<subseteq> insert (k, v) (set al)"
  by (induction al) auto

lemma get_list_in: "x \<in> set (get_list m k) \<Longrightarrow> \<exists>l. (k, l) \<in> set m \<and> x \<in> set l"
  by (cases "map_of m k") (auto simp: get_list_def dest: map_of_SomeD)

lemma map_raise_Inr:
  "map_raise f xs = Inr ys \<Longrightarrow> list_all2 (\<lambda>x y. f x = Inr y) xs ys"
  by (induction xs arbitrary: ys) (auto split: sum.splits)

lemma map_raise_in_set:
  assumes "map_raise f xs = Inr ys" and "y \<in> set ys"
  shows "\<exists>x \<in> set xs. f x = Inr y"
  using assms by (induction xs arbitrary: ys) (auto split: sum.splits)

text \<open>Every light service the builder stores was made by \<open>make_light_service\<close>.\<close>

lemma add_light_service_made:
  assumes made: "\<And>dm oid sid raw. Q (make_light_service dm oid sid raw)"
    and inv: "\<forall>(k, l) \<in> set m. \<forall>s \<in> set l. Q s"
  shows "\<forall>(k, l) \<in> set (add_light_service dm m raw). \<forall>s \<in> set l. Q s"
proof -
  have upd: "\<forall>(k, l) \<in> set (AList.update oid (get_list m oid @ [make_light_service dm oid sid raw]) m).
               \<forall>s \<in> set l. Q s" for oid sid
  proof -
    have "\<forall>s \<in> set (get_list m oid @ [make_light_service dm oid sid raw]). Q s"
      using made inv by (auto dest!: get_list_in)
    then show ?thesis using inv set_update_subset[of oid _ m] by fastforce
  qed
  show ?thesis
    unfolding add_light_service_def Let_def
    using inv upd by (auto split: option.splits simp del: split_paired_All)
qed

lemma light_services_made:
  assumes "\<And>dm oid sid raw. Q (make_light_service dm oid sid raw)"
  shows "\<forall>(k, l) \<in> set (foldl (add_light_service dm) [] lights). \<forall>s \<in> set l. Q s"
  by (rule foldl_invariant) (use assms add_light_service_made in auto)

text \<open>A property of devices that holds for every device whose light services come from
  the map of step 2 holds for every device of a built room.\<close>

lemma add_room_device_inv:
  assumes new: "\<And>i (detail :: device_detail).
                  R \<lparr>device_name = detail_name detail, device_id = detail_id detail,
                    light_services = get_list lm i\<rparr>"
    and inv: "\<forall>(k, ds) \<in> set by_name. \<forall>d \<in> set ds. R d"
  shows "\<forall>(k, ds) \<in> set (add_room_device dm lm by_name dev_id). \<forall>d \<in> set ds. R d"
proof (cases dev_id)
  case None
  then show ?thesis using inv by (simp add: add_room_device_def)
next
  case (Some i)
  show ?thesis
  proof (cases "map_of dm i")
    case None
    then show ?thesis using inv Some by (simp add: add_room_device_def)
  next
    case (Some detail)
    let ?n = "detail_normalized_name detail"
    let ?d = "\<lparr>device_name = detail_name detail, device_id = detail_id detail,
               light_services = get_list lm i\<rparr>"
    have "\<forall>d \<in> set (get_list by_name ?n @ [?d]). R d"
      using new inv by (auto dest!: get_list_in)
    then have "\<forall>(k, ds) \<in> set (AList.update ?n (get_list by_name ?n @ [?d]) by_name).
                 \<forall>d \<in> set ds. R d"
      using inv set_update_subset[of ?n _ by_name] by fastforce
    then show ?thesis using Some \<open>dev_id = Some i\<close> by (simp add: add_room_device_def Let_def)
  qed
qed

lemma populate_room_inv:
  assumes "\<forall>(k, g) \<in> set (fst st). \<forall>d \<in> set (hue_devices g). R d"
    and "\<forall>d \<in> set (snd st). R d"
    and "\<forall>d \<in> set (snd entry). R d"
  shows "(\<forall>(k, g) \<in> set (fst (populate_room st entry)). \<forall>d \<in> set (hue_devices g). R d)
       \<and> (\<forall>d \<in> set (snd (populate_room st entry)). R d)"
proof -
  obtain groups standalone where st: "st = (groups, standalone)" by (cases st)
  obtain k ds where entry: "entry = (k, ds)" by (cases entry)
  let ?g = "\<lparr>group_base_name = k, hue_devices = sort_key device_name ds\<rparr>"
  have g: "\<forall>(k', g) \<in> set (AList.update k ?g groups). \<forall>d \<in> set (hue_devices g). R d"
    using assms set_update_subset[of k ?g groups] unfolding st entry by fastforce
  have s: "length ds = 1 \<Longrightarrow> R (ds ! 0)"
    using assms(3) unfolding entry by (cases ds) auto
  show ?thesis
    using assms g s unfolding st entry by (simp add: populate_room_def)
qed

lemma build_room_inv:
  assumes new: "\<And>i (detail :: device_detail).
                  R \<lparr>device_name = detail_name detail, device_id = detail_id detail,
                    light_services = get_list lm i\<rparr>"
    and built: "build_room dm lm raw = Inr room"
  shows "(\<forall>g \<in> set (device_groups room). \<forall>d \<in> set (hue_devices g). R d)
       \<and> (\<forall>d \<in> set (standalone_devices room). R d)"
proof -
  let ?by_name = "foldl (add_room_device dm lm) [] (room_hue_device_ids raw)"
  have b: "\<forall>(k, ds) \<in> set ?by_name. \<forall>d \<in> set ds. R d"
  proof (rule foldl_invariant)
    show "\<forall>(k, ds) \<in> set ([] :: (string \<times> hue_device list) list). \<forall>d \<in> set ds. R d" by simp
  next
    fix by_name :: "(string \<times> hue_device list) list" and dev_id
    assume "\<forall>(k, ds) \<in> set by_name. \<forall>d \<in> set ds. R d"
    then show "\<forall>(k, ds) \<in> set (add_room_device dm lm by_name dev_id). \<forall>d \<in> set ds. R d"
      by (rule add_room_device_inv[of R lm, OF new])
  qed
  let ?st = "foldl populate_room ([], []) ?by_name"
  have p: "(\<forall>(k, g) \<in> set (fst ?st). \<forall>d \<in> set (hue_devices g). R d)
         \<and> (\<forall>d \<in> set (snd ?st). R d)"
  proof (rule foldl_invariant)
    show "(\<forall>(k, g) \<in> set (fst ([], [])). \<forall>d \<in> set (hue_devices g). R d)
         \<and> (\<forall>d \<in> set (snd ([]::(string \<times> device_group) list, []::hue_device list)). R d)"
      by simp
  next
    fix st :: "(string \<times> device_group) list \<times> hue_device list" and entry
    assume "(\<forall>(k, g) \<in> set (fst st). \<forall>d \<in> set (hue_devices g). R d) \<and> (\<forall>d \<in> set (snd st). R d)"
      and "entry \<in> set ?by_name"
    then show "(\<forall>(k, g) \<in> set (fst (populate_room st entry)). \<forall>d \<in> set (hue_devices g). R d)
       \<and> (\<forall>d \<in> set (snd (populate_room st entry)). R d)"
      using b by (intro populate_room_inv) auto
  qed
  from built obtain i where
    room: "room = \<lparr>room_name = metadata_name (raw_room_metadata raw) (''Unnamed Room '' @ take 6 i),
                   room_id = i,
                   device_groups = sort_key group_base_name (map snd (fst ?st)),
                   standalone_devices = sort_key device_name (snd ?st)\<rparr>"
    by (auto simp: build_room_def Let_def split: option.splits prod.splits)
  show ?thesis using p unfolding room by auto
qed

lemma build_house_structure_rooms:
  assumes "build_house_structure ip devices_raw lights_raw rooms_raw = Inr house"
    and "room \<in> set (rooms house)"
  shows "\<exists>dm raw. fold_raise add_device_detail devices_raw [] = Inr dm \<and> raw \<in> set rooms_raw
           \<and> build_room dm (foldl (add_light_service dm) [] lights_raw) raw = Inr room"
proof -
  from assms(1) obtain dm built where
    dm: "fold_raise add_device_detail devices_raw [] = Inr dm"
    and built: "map_raise (build_room dm (foldl (add_light_service dm) [] lights_raw)) rooms_raw
                  = Inr built"
    and house: "house = \<lparr>house_name = ''Hue Setup on '' @ ip, rooms = sort_key room_name built\<rparr>"
    by (auto simp: build_house_structure_def Let_def split: sum.splits)
  have "room \<in> set built" using assms(2) house by simp
  from map_raise_in_set[OF built this] dm show ?thesis by blast
qed

lemma build_house_structure_services:
  assumes made: "\<And>dm oid sid raw. Q (make_light_service dm oid sid raw)"
    and built: "build_house_structure ip devices_raw lights_raw rooms_raw = Inr house"
    and s: "s \<in> set (house_light_services house)"
  shows "Q s"
proof -
  from s obtain room where room: "room \<in> set (rooms house)" and sr: "s \<in> set (room_light_services room)"
    by (auto simp: house_light_services_def)
  from build_house_structure_rooms[OF built room] obtain dm raw where
    b: "build_room dm (foldl (add_light_service dm) [] lights_raw) raw = Inr room" by blast
  let ?lm = "foldl (add_light_service dm) [] lights_raw"
  have "\<forall>x \<in> set (get_list ?lm i). Q x" for i
    using light_services_made[of Q dm lights_raw, OF made] by (auto dest!: get_list_in)
  then have new: "\<forall>x \<in> set (light_services \<lparr>device_name = detail_name detail,
       device_id = detail_id detail, light_services = get_list ?lm i\<rparr>). Q x" for i and detail :: device_detail
    by simp
  have "(\<forall>g \<in> set (device_groups room). \<forall>d \<in> set (hue_devices g). \<forall>x \<in> set (light_services d). Q x)
       \<and> (\<forall>d \<in> set (standalone_devices room). \<forall>x \<in> set (light_services d). Q x)"
    by (rule build_room_inv[where R = "\<lambda>d. \<forall>x \<in> set (light_services d). Q x", OF new b])
  then show ?thesis using sr by (auto simp: room_light_services_def device_light_services_def)
qed

text \<open>
  C5. For every light service in the built structure, the field \<open>current_brightness\<close> is
  present only when the service is on and supports dimming; in every other case it is
  \<open>None\<close>, whatever brightness the bridge reports for the light.
\<close>

theorem current_brightness_only_when_on_and_dimmable:
  assumes "generate_hue_structure_json output_file_path w = Inr (Some house, w')"
    and "s \<in> set (house_light_services house)"
    and "current_brightness s \<noteq> None"
  shows "is_on s \<and> supports_dimming s"
proof -
  from generate_SomeD[OF assms(1)] obtain ds ls rs where
    b: "build_house_structure (bridge_ip_text w) ds ls rs = Inr house" by blast
  have "current_brightness s \<noteq> None \<longrightarrow> is_on s \<and> supports_dimming s"
    by (rule build_house_structure_services[OF _ b assms(2)])
       (simp add: make_light_service_def Let_def)
  then show ?thesis using assms(3) by simp
qed

theorem current_brightness_only_when_on_and_dimmable_witness:
  "generate_hue_structure_json DEFAULT_OUTPUT_FILE example_world
     = Inr (Some example_house, example_world_after)
   \<and> house_light_services example_house = [example_service_1, example_service_2]
   \<and> current_brightness example_service_1 = Some 80
   \<and> is_on example_service_1 \<and> supports_dimming example_service_1
   \<and> \<not> is_on example_service_2 \<and> current_brightness example_service_2 = None"
proof -
  have g: "generate_hue_structure_json DEFAULT_OUTPUT_FILE example_world
     = Inr (Some example_house, example_world_after)"
    by (simp add: example_generate example_world_after_def)
  have l: "house_light_services example_house = [example_service_1, example_service_2]"
    by (simp add: house_light_services_def room_light_services_def device_light_services_def
        example_house_def example_bedroom_def example_lamp_1_def example_lamp_2_def)
  have b: "current_brightness example_service_1 = Some 80" by (simp add: example_service_1_def)
  have "is_on example_service_1 \<and> supports_dimming example_service_1"
    by (rule current_brightness_only_when_on_and_dimmable[OF g]) (simp_all add: l b)
  moreover have "\<not> is_on example_service_2 \<and> current_brightness example_service_2 = None"
    by (simp add: example_service_2_def)
  ultimately show ?thesis using g l b by blast
qed

subsection \<open>Bulk on/off\<close>

lemma show_event_fields:
  "APP_CONFIG_VALID (show_event e s) = APP_CONFIG_VALID s"
  "put_succeeds (show_event e s) = put_succeeds s"
  "put_log (show_event e s) = put_log s"
  "events (show_event e s) = events s @ [e]"
  "data_dirty (show_event e s) = data_dirty s"
  by (simp_all add: show_event_def)

lemma send_light_payload_valid:
  assumes "APP_CONFIG_VALID s" and "send_light_payload sid payload s = (ok, s1)"
  shows "ok = put_succeeds s (length (put_log s))"
    and "put_log s1 = put_log s @ [(sid, payload, ok)]"
    and "APP_CONFIG_VALID s1" and "put_succeeds s1 = put_succeeds s"
  using assms by (auto simp: send_light_payload_def Let_def show_event_fields split: if_splits)

lemma on_off_loop_log:
  assumes "APP_CONFIG_VALID s"
    and "on_off_loop payload total_lights my_bar i service_ids (success_count, s) = (success_count', s')"
  shows "\<exists>new. put_log s' = put_log s @ new
           \<and> map fst new = service_ids
           \<and> map (fst \<circ> snd) new = map (\<lambda>x. payload) service_ids
           \<and> map (snd \<circ> snd) new
               = map (put_succeeds s) [length (put_log s) ..< length (put_log s) + length service_ids]
           \<and> success_count' = success_count + length (succeeded new)"
  using assms
proof (induction service_ids arbitrary: i success_count s)
  case Nil
  then have "s' = s" "success_count' = success_count" by simp_all
  then show ?case by (intro exI[of _ "[]"]) (simp add: succeeded_def)
next
  case (Cons sid rest)
  obtain ok s1 where snd: "send_light_payload sid payload s = (ok, s1)"
    by (cases "send_light_payload sid payload s")
  note f = send_light_payload_valid[OF Cons.prems(1) snd]
  define s2 where "s2 = (if my_bar then show_event (Progress (i + 1) total_lights) s1 else s1)"
  define c2 where "c2 = (if ok then success_count + 1 else success_count)"
  have v2: "APP_CONFIG_VALID s2" using f(3) by (simp add: s2_def show_event_fields)
  have l2: "put_log s2 = put_log s @ [(sid, payload, ok)]"
    using f(2) by (simp add: s2_def show_event_fields)
  have p2: "put_succeeds s2 = put_succeeds s" using f(4) by (simp add: s2_def show_event_fields)
  have "on_off_loop payload total_lights my_bar i (sid # rest) (success_count, s)
          = on_off_loop payload total_lights my_bar (i + 1) rest (c2, s2)"
    by (simp only: on_off_loop.simps snd prod.case s2_def c2_def)
  then have run: "on_off_loop payload total_lights my_bar (i + 1) rest (c2, s2) = (success_count', s')"
    using Cons.prems(2) by (simp only:)
  from Cons.IH[OF v2 run] obtain new where
    n: "put_log s' = put_log s2 @ new
       \<and> map fst new = rest
       \<and> map (fst \<circ> snd) new = map (\<lambda>x. payload) rest
       \<and> map (snd \<circ> snd) new
          = map (put_succeeds s2) [length (put_log s2) ..< length (put_log s2) + length rest]
       \<and> success_count' = c2 + length (succeeded new)" ..
  note n1 = n[THEN conjunct1]
  note n2 = n[THEN conjunct2, THEN conjunct1]
  note n3 = n[THEN conjunct2, THEN conjunct2, THEN conjunct1]
  note n4 = n[THEN conjunct2, THEN conjunct2, THEN conjunct2, THEN conjunct1]
  note n5 = n[THEN conjunct2, THEN conjunct2, THEN conjunct2, THEN conjunct2]
  let ?new = "(sid, payload, ok) # new"
  have r1: "put_log s' = put_log s @ ?new" using n1 l2 by simp
  have r2: "map fst ?new = sid # rest" using n2 by simp
  have r3: "map (fst \<circ> snd) ?new = map (\<lambda>x. payload) (sid # rest)" using n3 by simp
  have r4: "map (snd \<circ> snd) ?new
      = map (put_succeeds s) [length (put_log s) ..< length (put_log s) + length (sid # rest)]"
  proof -
    let ?n = "length (put_log s)"
    have "?n < Suc ?n + length rest" by simp
    then have u: "[?n ..< Suc ?n + length rest] = ?n # [Suc ?n ..< Suc ?n + length rest]"
      by (rule upt_conv_Cons)
    have e: "?n + length (sid # rest) = Suc ?n + length rest" by simp
    have "length (put_log s2) = Suc ?n" by (simp add: l2)
    then have m: "map (snd \<circ> snd) new = map (put_succeeds s) [Suc ?n ..< Suc ?n + length rest]"
      using n4 by (simp only: p2)
    have "map (snd \<circ> snd) ?new = ok # map (snd \<circ> snd) new" by simp
    also have "\<dots> = put_succeeds s ?n # map (put_succeeds s) [Suc ?n ..< Suc ?n + length rest]"
      using f(1) m by (simp only:)
    also have "\<dots> = map (put_succeeds s) [?n ..< Suc ?n + length rest]"
      by (simp only: u list.map)
    finally show ?thesis by (simp only: e)
  qed
  have r5: "success_count' = success_count + length (succeeded ?new)"
    using n5 by (simp add: succeeded_def c2_def)
  show ?case by (intro exI[of _ ?new] conjI r1 r2 r3 r4 r5)
qed

text \<open>
  C9. For every non-empty list of light service ids and every pattern of command outcomes,
  \<open>set_lights_on_off\<close> sends a \<open>PUT\<close> for every id, in the order of the list and whatever
  the earlier outcomes were, and the last thing it shows is the tally: the success count it
  reports is the number of these \<open>PUT\<close>s that succeeded, out of as many as were sent (the
  toast when all succeeded, the warning otherwise). The application is configured, as it
  is whenever the buttons are drawn.
\<close>

theorem set_lights_on_off_attempts_all_and_tallies:
  assumes "service_ids \<noteq> []" and "APP_CONFIG_VALID s"
  shows "\<exists>new. put_log (set_lights_on_off service_ids turn_on s) = put_log s @ new
           \<and> map fst new = service_ids
           \<and> map (fst \<circ> snd) new = map (\<lambda>x. OnPayload turn_on) service_ids
           \<and> map (snd \<circ> snd) new
               = map (put_succeeds s) [length (put_log s) ..< length (put_log s) + length service_ids]
           \<and> last (events (set_lights_on_off service_ids turn_on s))
               = (if length (succeeded new) = length new
                  then SuccessToast (length (succeeded new)) turn_on
                  else AttemptedWarning (length new) (length (succeeded new)) turn_on)"
proof -
  let ?total = "length service_ids"
  let ?bar = "?total > 1"
  let ?s0 = "if ?bar then show_event ProgressStart s else s"
  obtain c s1 where run: "on_off_loop (OnPayload turn_on) ?total ?bar 0 service_ids (0, ?s0) = (c, s1)"
    by (cases "on_off_loop (OnPayload turn_on) ?total ?bar 0 service_ids (0, ?s0)")
  have v0: "APP_CONFIG_VALID ?s0" using assms(2) by (simp add: show_event_fields)
  have l0: "put_log ?s0 = put_log s" "put_succeeds ?s0 = put_succeeds s"
    by (simp_all add: show_event_fields)
  from on_off_loop_log[OF v0 run, unfolded l0] obtain new where
    n: "put_log s1 = put_log s @ new
       \<and> map fst new = service_ids
       \<and> map (fst \<circ> snd) new = map (\<lambda>x. OnPayload turn_on) service_ids
       \<and> map (snd \<circ> snd) new
          = map (put_succeeds s) [length (put_log s) ..< length (put_log s) + length service_ids]
       \<and> c = 0 + length (succeeded new)" ..
  note n1 = n[THEN conjunct1]
  note n2 = n[THEN conjunct2, THEN conjunct1]
  note n3 = n[THEN conjunct2, THEN conjunct2, THEN conjunct1]
  note n4 = n[THEN conjunct2, THEN conjunct2, THEN conjunct2, THEN conjunct1]
  note n5 = n[THEN conjunct2, THEN conjunct2, THEN conjunct2, THEN conjunct2]
  have c: "c = length (succeeded new)" using n5 by (simp only: add_0)
  have len: "length new = ?total" using n2 by (metis length_map)
  have pos: "?total > 0" using assms(1) by simp
  let ?r = "set_lights_on_off service_ids turn_on s"
  have "put_log ?r = put_log s1"
    using assms(1) run by (simp add: set_lights_on_off_def Let_def show_event_fields)
  then have r1: "put_log ?r = put_log s @ new" using n1 by (simp only:)
  have "last (events ?r) = (if c = ?total then SuccessToast c turn_on
                             else AttemptedWarning ?total c turn_on)"
    using assms(1) run pos by (simp add: set_lights_on_off_def Let_def show_event_fields)
  then have r5: "last (events ?r)
               = (if length (succeeded new) = length new
                  then SuccessToast (length (succeeded new)) turn_on
                  else AttemptedWarning (length new) (length (succeeded new)) turn_on)"
    by (simp only: c len)
  show ?thesis by (intro exI[of _ new] conjI r1 n2 n3 n4 r5)
qed

theorem set_lights_on_off_attempts_all_and_tallies_witness:
  "[''a'', ''b'', ''c''] \<noteq> [] \<and> APP_CONFIG_VALID example_session
   \<and> put_log example_session = []
   \<and> put_log (set_lights_on_off [''a'', ''b'', ''c''] True example_session)
       = [(''a'', OnPayload True, True), (''b'', OnPayload True, False), (''c'', OnPayload True, True)]
   \<and> last (events (set_lights_on_off [''a'', ''b'', ''c''] True example_session))
       = AttemptedWarning 3 2 True
   \<and> (\<exists>new. put_log (set_lights_on_off [''a'', ''b'', ''c''] True example_session)
              = put_log example_session @ new
           \<and> map fst new = [''a'', ''b'', ''c'']
           \<and> last (events (set_lights_on_off [''a'', ''b'', ''c''] True example_session))
               = (if length (succeeded new) = length new
                  then SuccessToast (length (succeeded new)) True
                  else AttemptedWarning (length new) (length (succeeded new)) True))"
proof -
  have v: "APP_CONFIG_VALID example_session" by (simp add: example_session_def)
  have ne: "[''a'', ''b'', ''c''] \<noteq> []" by simp
  have l: "put_log example_session = []" by (simp add: example_session_def)
  have run: "set_lights_on_off [''a'', ''b'', ''c''] True example_session =
     \<lparr>APP_CONFIG_VALID = True, put_succeeds = (\<lambda>n. n \<noteq> 1),
      put_log = [(''a'', OnPayload True, True), (''b'', OnPayload True, False),
                 (''c'', OnPayload True, True)],
      events = [ProgressStart, Progress 1 3, CommandError ''b'', Progress 2 3, Progress 3 3,
                ProgressEmpty, AttemptedWarning 3 2 True],
      data_dirty = True\<rparr>"
    by (simp add: set_lights_on_off_def send_light_payload_def show_event_def example_session_def)
  have p: "put_log (set_lights_on_off [''a'', ''b'', ''c''] True example_session)
       = [(''a'', OnPayload True, True), (''b'', OnPayload True, False), (''c'', OnPayload True, True)]"
    by (simp add: run)
  have e: "last (events (set_lights_on_off [''a'', ''b'', ''c''] True example_session))
       = AttemptedWarning 3 2 True"
    by (simp add: run)
  have "\<exists>new. put_log (set_lights_on_off [''a'', ''b'', ''c''] True example_session)
              = put_log example_session @ new
           \<and> map fst new = [''a'', ''b'', ''c'']
           \<and> map (fst \<circ> snd) new = map (\<lambda>x. OnPayload True) [''a'', ''b'', ''c'']
           \<and> map (snd \<circ> snd) new = map (put_succeeds example_session)
                 [length (put_log example_session) ..<
                  length (put_log example_session) + length [''a'', ''b'', ''c'']]
           \<and> last (events (set_lights_on_off [''a'', ''b'', ''c''] True example_session))
               = (if length (succeeded new) = length new
                  then SuccessToast (length (succeeded new)) True
                  else AttemptedWarning (length new) (length (succeeded new)) True)"
    by (rule set_lights_on_off_attempts_all_and_tallies[OF ne v])
  then obtain new where n:
         "put_log (set_lights_on_off [''a'', ''b'', ''c''] True example_session)
              = put_log example_session @ new
           \<and> map fst new = [''a'', ''b'', ''c'']
           \<and> map (fst \<circ> snd) new = map (\<lambda>x. OnPayload True) [''a'', ''b'', ''c'']
           \<and> map (snd \<circ> snd) new = map (put_succeeds example_session)
                 [length (put_log example_session) ..<
                  length (put_log example_session) + length [''a'', ''b'', ''c'']]
           \<and> last (events (set_lights_on_off [''a'', ''b'', ''c''] True example_session))
               = (if length (succeeded new) = length new
                  then SuccessToast (length (succeeded new)) True
                  else AttemptedWarning (length new) (length (succeeded new)) True)" ..
  note n1 = n[THEN conjunct1]
  note n2 = n[THEN conjunct2, THEN conjunct1]
  note n5 = n[THEN conjunct2, THEN conjunct2, THEN conjunct2, THEN conjunct2]
  show ?thesis
    apply (intro conjI)
         apply (rule ne)
        apply (rule v)
       apply (rule l)
      apply (rule p)
     apply (rule e)
    apply (rule exI[of _ new])
    apply (intro conjI)
      apply (rule n1)
     apply (rule n2)
    apply (rule n5)
    done
qed

subsection \<open>DefaultOrderSynthesizer\<close>

lemma normalize_desk: "normalize_device_name ''Desk'' = ''Desk''"
  by (simp add: normalize_device_name_def match_trailing_number_def is_space_def is_digit_def)

lemma twin_build:
  "build_house_structure ''192.168.1.2'' twin_devices example_lights twin_rooms = Inr twin_house"
  by (simp add: build_house_structure_def build_room_def add_device_detail_def
      add_light_service_def make_light_service_def add_room_device_def populate_room_def
      room_hue_device_ids_def metadata_name_def get_list_def example_defs
      twin_rooms_def twin_devices_def twin_desk_def twin_house_def normalize_desk Let_def)

lemma twin_default_ui_order:
  "default_ui_order twin_house = \<lparr>room_order = [''Den'', ''Den''], device_order_in_room = [(''Den'', [])]\<rparr>"
  by (simp add: default_ui_order_def device_names_in_room_def twin_house_def)

text \<open>
  C6, as the claim states it, fails where two rooms carry the same display name: the
  ordering document maps room names to device names, so the entry of the name is written
  once per room and keeps what the last room of that name wrote. Here the first \<open>Den\<close>
  holds \<open>Desk\<close> and the entry for \<open>Den\<close> is empty.
\<close>

theorem default_ui_order_twin_rooms:
  "build_house_structure ''192.168.1.2'' twin_devices example_lights twin_rooms = Inr twin_house
   \<and> \<not> (\<forall>r \<in> set (rooms twin_house).
          map_of (device_order_in_room (default_ui_order twin_house)) (room_name r)
            = Some (map group_base_name (device_groups r) @ map device_name (standalone_devices r)))"
proof -
  let ?r = "\<lparr>room_name = ''Den'', room_id = ''r1'', device_groups = [],
                standalone_devices = [twin_desk]\<rparr>"
  have "?r \<in> set (rooms twin_house)" by (simp add: twin_house_def)
  moreover have "map_of (device_order_in_room (default_ui_order twin_house)) (room_name ?r)
      \<noteq> Some (map group_base_name (device_groups ?r) @ map device_name (standalone_devices ?r))"
    by (simp add: twin_default_ui_order twin_desk_def)
  ultimately show ?thesis using twin_build by blast
qed

lemma map_of_foldl_update:
  "map_of (foldl (\<lambda>m r. AList.update (f r) (g r) m) m0 rs) n =
     (case filter (\<lambda>r. f r = n) rs of [] \<Rightarrow> map_of m0 n | x # xs \<Rightarrow> Some (g (last (x # xs))))"
proof (induction rs arbitrary: m0)
  case Nil
  then show ?case by simp
next
  case (Cons r rs)
  show ?case
    by (cases "filter (\<lambda>r. f r = n) rs") (auto simp: Cons.IH update_conv')
qed

lemma default_ui_order_lookup:
  assumes "r \<in> set (rooms house)"
  shows "map_of (device_order_in_room (default_ui_order house)) (room_name r)
         = Some (device_names_in_room
                   (last (filter (\<lambda>r'. room_name r' = room_name r) (rooms house))))"
proof -
  have "filter (\<lambda>r'. room_name r' = room_name r) (rooms house) \<noteq> []"
    using assms by (auto simp: filter_empty_conv)
  then show ?thesis
    by (cases "filter (\<lambda>r'. room_name r' = room_name r) (rooms house)")
       (simp_all add: default_ui_order_def map_of_foldl_update)
qed

lemma build_room_sorted:
  assumes "build_room dm lm raw = Inr r"
  shows "sorted (map group_base_name (device_groups r))"
    and "sorted (map device_name (standalone_devices r))"
  using assms
  by (auto simp: build_room_def Let_def split: option.splits prod.splits)

lemma build_house_structure_sorted:
  assumes "build_house_structure ip devices_raw lights_raw rooms_raw = Inr house"
  shows "sorted (map room_name (rooms house))"
    and "r \<in> set (rooms house) \<Longrightarrow> sorted (map group_base_name (device_groups r))"
    and "r \<in> set (rooms house) \<Longrightarrow> sorted (map device_name (standalone_devices r))"
proof -
  show "sorted (map room_name (rooms house))"
    using assms by (auto simp: build_house_structure_def Let_def split: sum.splits)
next
  assume "r \<in> set (rooms house)"
  from build_house_structure_rooms[OF assms this] obtain dm raw where
    "build_room dm (foldl (add_light_service dm) [] lights_raw) raw = Inr r" by blast
  then show "sorted (map group_base_name (device_groups r))" by (rule build_room_sorted)
next
  assume "r \<in> set (rooms house)"
  from build_house_structure_rooms[OF assms this] obtain dm raw where
    "build_room dm (foldl (add_light_service dm) [] lights_raw) raw = Inr r" by blast
  then show "sorted (map device_name (standalone_devices r))" by (rule build_room_sorted)
qed

lemma generate_without_structure:
  assumes "built_structure w = None" and "generate_hue_structure_json p w = Inr (res, w')"
  shows "res = None" and "w' = w"
  using assms
  by (auto simp: generate_hue_structure_json_def built_structure_def Let_def
      split: if_splits option.splits list.splits sum.splits)

lemma generate_with_structure:
  assumes "built_structure w = Some house"
  shows "generate_hue_structure_json p w =
     (case write_file p (StructureDocument house) (create_default_ui_order house w) of
        Some w2 \<Rightarrow> Inr (Some house, w2)
      | None \<Rightarrow> Inr (None, create_default_ui_order house w))"
    and "\<exists>ds ls rs. build_house_structure (bridge_ip_text w) ds ls rs = Inr house"
  using assms
  by (auto simp: generate_hue_structure_json_def built_structure_def Let_def
      split: if_splits option.splits list.splits sum.splits)

lemma generate_returns_built:
  assumes "generate_hue_structure_json p w = Inr (Some house, w')"
  shows "built_structure w = Some house"
  using assms
  by (auto simp: generate_hue_structure_json_def built_structure_def Let_def
      split: if_splits option.splits list.splits sum.splits)

lemma create_default_ui_order_file:
  "files (create_default_ui_order house w) (file_of w UI_ORDER_FILE_PATH_DEFAULT) =
     (if path_exists w UI_ORDER_FILE_PATH_DEFAULT
      then files w (file_of w UI_ORDER_FILE_PATH_DEFAULT)
      else if writable w UI_ORDER_FILE_PATH_DEFAULT
      then Some (OrderingDocument (default_ui_order house))
      else None)"
  by (auto simp: create_default_ui_order_def write_file_def path_exists_def)

lemma generate_ordering_file:
  assumes built: "built_structure w = Some house"
    and run: "generate_hue_structure_json p w = Inr (res, w')"
    and other: "file_of w p \<noteq> file_of w UI_ORDER_FILE_PATH_DEFAULT"
  shows "files w' (file_of w UI_ORDER_FILE_PATH_DEFAULT) =
     (if path_exists w UI_ORDER_FILE_PATH_DEFAULT
      then files w (file_of w UI_ORDER_FILE_PATH_DEFAULT)
      else if writable w UI_ORDER_FILE_PATH_DEFAULT
      then Some (OrderingDocument (default_ui_order house))
      else None)"
proof -
  let ?w1 = "create_default_ui_order house w"
  let ?o = "file_of w UI_ORDER_FILE_PATH_DEFAULT"
  have "files w' ?o = files ?w1 ?o"
  proof (cases "write_file p (StructureDocument house) ?w1")
    case None
    then have "w' = ?w1" using run generate_with_structure(1)[OF built, of p] by simp
    then show ?thesis by simp
  next
    case (Some w2)
    then have "w' = w2" using run generate_with_structure(1)[OF built, of p] by simp
    then have "files w' = (files ?w1)(file_of w p \<mapsto> StructureDocument house)"
      using write_file_fields(9)[OF Some] by (simp add: create_default_ui_order_fields)
    then show ?thesis using other by simp
  qed
  then show ?thesis by (simp only: create_default_ui_order_file)
qed

lemma villa_build:
  "build_house_structure ''192.168.1.2'' villa_devices example_lights villa_rooms = Inr villa_house"
  by (simp add: build_house_structure_def build_room_def add_device_detail_def
      add_light_service_def make_light_service_def add_room_device_def populate_room_def
      room_hue_device_ids_def metadata_name_def get_list_def example_defs Let_def
      trio_devices_def trio_rooms_def trio_desk_def trio_bedroom_def
      villa_devices_def villa_rooms_def villa_attic_def villa_house_def
      normalize_lamp_1 normalize_lamp_2 normalize_desk
      normalize_device_name_def[of "''Fan''"] match_trailing_number_def is_space_def is_digit_def)

lemma villa_default_ui_order: "default_ui_order villa_house = villa_default_order"
  by (simp add: default_ui_order_def device_names_in_room_def villa_house_def villa_attic_def
      trio_bedroom_def trio_desk_def villa_default_order_def)

lemma built_structure_built:
  assumes "CONFIG_VALID w"
    and "get_hue_resources True (device_reply w) = Some ds" "ds \<noteq> []"
    and "get_hue_resources True (light_reply w) = Some ls" "ls \<noteq> []"
    and "get_hue_resources True (room_reply w) = Some rs" "rs \<noteq> []"
    and "build_house_structure (bridge_ip_text w) ds ls rs = Inr house"
  shows "built_structure w = Some house"
proof -
  obtain d ds' where ds: "ds = d # ds'" using assms(3) by (cases ds) auto
  obtain l ls' where ls: "ls = l # ls'" using assms(5) by (cases ls) auto
  obtain r rs' where rs: "rs = r # rs'" using assms(7) by (cases rs) auto
  show ?thesis
    using assms unfolding ds ls rs
    by (simp add: built_structure_def)
qed

lemma villa_built:
  assumes "BRIDGE_IP w = Some ''192.168.1.2''" and "HUE_APP_KEY w = Some ''key''"
    and "device_reply w = Reply None (Some villa_devices)"
    and "light_reply w = Reply None (Some example_lights)"
    and "room_reply w = Reply None (Some villa_rooms)"
  shows "built_structure w = Some villa_house"
proof -
  have cv: "CONFIG_VALID w" using assms by (simp add: CONFIG_VALID_def truthy_str_def)
  have b: "build_house_structure (bridge_ip_text w) villa_devices example_lights villa_rooms
             = Inr villa_house"
    using assms by (simp add: bridge_ip_text_def villa_build)
  show ?thesis
    by (rule built_structure_built[OF cv _ _ _ _ _ _ b])
       (simp_all add: assms example_fetches example_lists villa_devices_def villa_rooms_def
          trio_devices_def trio_rooms_def)
qed

lemma villa_world_fields:
  "BRIDGE_IP villa_world = Some ''192.168.1.2''"
  "HUE_APP_KEY villa_world = Some ''key''"
  "device_reply villa_world = Reply None (Some villa_devices)"
  "light_reply villa_world = Reply None (Some example_lights)"
  "room_reply villa_world = Reply None (Some villa_rooms)"
  "files villa_world = (\<lambda>f. None)"
  "writable villa_world = (\<lambda>path. True)"
  "file_of villa_world = example_file_of"
  by (simp_all add: villa_world_def example_world_fields)

lemma villa_worlds_built:
  "built_structure villa_world = Some villa_house"
  "built_structure villa_world_with_order = Some villa_house"
  "built_structure villa_world_no_save = Some villa_house"
  by (rule villa_built;
      simp add: villa_world_with_order_def villa_world_no_save_def villa_world_fields)+

lemma villa_generate:
  "generate_hue_structure_json DEFAULT_OUTPUT_FILE villa_world =
     Inr (Some villa_house,
          villa_world\<lparr>files := (\<lambda>f. None)
             (1 \<mapsto> OrderingDocument villa_default_order,
              2 \<mapsto> StructureDocument villa_house)\<rparr>)"
  unfolding generate_with_structure(1)[OF villa_worlds_built(1)]
  by (simp add: create_default_ui_order_def write_file_def path_exists_def
      villa_world_fields example_file_numbers villa_default_ui_order)

lemma villa_generate_with_order:
  "generate_hue_structure_json DEFAULT_OUTPUT_FILE villa_world_with_order =
     Inr (Some villa_house,
          villa_world\<lparr>files := (\<lambda>f. None)
             (1 \<mapsto> OrderingDocument hand_written_order,
              2 \<mapsto> StructureDocument villa_house)\<rparr>)"
  unfolding generate_with_structure(1)[OF villa_worlds_built(2)]
  by (simp add: create_default_ui_order_def write_file_def path_exists_def
      villa_world_with_order_def villa_world_fields example_file_numbers)

lemma villa_generate_no_save:
  "generate_hue_structure_json DEFAULT_OUTPUT_FILE villa_world_no_save =
     Inr (None,
          villa_world_no_save\<lparr>files := (\<lambda>f. None)
             (1 \<mapsto> OrderingDocument villa_default_order)\<rparr>)"
  unfolding generate_with_structure(1)[OF villa_worlds_built(3)]
  by (simp add: create_default_ui_order_def write_file_def path_exists_def
      villa_world_no_save_def villa_world_fields example_file_of_def villa_default_ui_order
      UI_ORDER_FILE_PATH_DEFAULT_def DEFAULT_OUTPUT_FILE_def)

text \<open>
  Where the structure is written to the ordering file itself, under another spelling of
  its path, the run replaces the ordering written by hand with the structure: the
  structure path has to name another file for the ordering file to be kept.
\<close>

lemma structure_written_over_ordering_file:
  "generate_hue_structure_json ''./reference/ui_order.json'' villa_world_with_order =
     Inr (Some villa_house,
          villa_world\<lparr>files := (\<lambda>f. None)(1 \<mapsto> StructureDocument villa_house)\<rparr>)
   \<and> files villa_world_with_order (file_of villa_world_with_order UI_ORDER_FILE_PATH_DEFAULT)
       = Some (OrderingDocument hand_written_order)"
  unfolding generate_with_structure(1)[OF villa_worlds_built(2)]
  by (simp add: create_default_ui_order_def write_file_def path_exists_def
      villa_world_with_order_def villa_world_fields example_file_numbers)

text \<open>
  C6, amended. A run whose structure path names another file than the ordering path (as
  the default paths do) leaves an existing ordering file as it is, whatever it returns.
  Where there is no ordering file, the file after the run holds the default ordering of
  the structure the run has built if the file can be written, also when saving the
  structure then fails and the run returns nothing; and there is still no ordering file if
  it cannot be written or if the run builds no structure (invalid configuration, a
  failed or empty fetch), in which case the run changes nothing at all. A run that raises
  does so in the builder, before it touches a file. A document the run returns is the
  structure it has built. In the default ordering of a built structure
  \<open>room_order\<close> is the room display names in the order of the structure, which is sorted;
  and \<open>device_order_in_room\<close> of a room name is the group base names followed by the
  standalone device names, each in the sorted order of the structure, of the last room in
  the structure with that name: of the room itself when the display names of the rooms
  are pairwise distinct.
\<close>

theorem default_ui_order_only_when_absent:
  assumes "generate_hue_structure_json output_file_path w = Inr (res, w')"
    and "file_of w output_file_path \<noteq> file_of w UI_ORDER_FILE_PATH_DEFAULT"
  shows "files w' (file_of w UI_ORDER_FILE_PATH_DEFAULT) =
           (if path_exists w UI_ORDER_FILE_PATH_DEFAULT
            then files w (file_of w UI_ORDER_FILE_PATH_DEFAULT)
            else case built_structure w of
                   None \<Rightarrow> None
                 | Some built \<Rightarrow>
                     if writable w UI_ORDER_FILE_PATH_DEFAULT
                     then Some (OrderingDocument (default_ui_order built))
                     else None)
       \<and> file_of w' = file_of w
       \<and> (built_structure w = None \<longrightarrow> res = None \<and> w' = w)
       \<and> (res = Some house \<longrightarrow> built_structure w = Some house)
       \<and> (built_structure w = Some house \<longrightarrow>
             room_order (default_ui_order house) = map room_name (rooms house)
           \<and> sorted (map room_name (rooms house))
           \<and> (\<forall>r \<in> set (rooms house).
                 sorted (map group_base_name (device_groups r))
               \<and> sorted (map device_name (standalone_devices r))
               \<and> (\<exists>r' \<in> set (rooms house).
                     r' = last (filter (\<lambda>x. room_name x = room_name r) (rooms house))
                   \<and> map_of (device_order_in_room (default_ui_order house)) (room_name r)
                       = Some (map group_base_name (device_groups r')
                                 @ map device_name (standalone_devices r')))
               \<and> (distinct (map room_name (rooms house))
                    \<longrightarrow> map_of (device_order_in_room (default_ui_order house)) (room_name r)
                       = Some (map group_base_name (device_groups r)
                                 @ map device_name (standalone_devices r)))))"
proof -
  let ?o = "file_of w UI_ORDER_FILE_PATH_DEFAULT"
  have f1: "files w' ?o =
           (if path_exists w UI_ORDER_FILE_PATH_DEFAULT
            then files w ?o
            else case built_structure w of
                   None \<Rightarrow> None
                 | Some built \<Rightarrow>
                     if writable w UI_ORDER_FILE_PATH_DEFAULT
                     then Some (OrderingDocument (default_ui_order built))
                     else None)"
  proof (cases "built_structure w")
    case None
    then have "w' = w" using assms(1) by (rule generate_without_structure(2))
    then show ?thesis using None by (simp add: path_exists_def)
  next
    case (Some built)
    show ?thesis
      using generate_ordering_file[OF Some assms] by (simp add: Some)
  qed
  have f2: "file_of w' = file_of w"
  proof (cases "built_structure w")
    case None
    then have "w' = w" using assms(1) by (rule generate_without_structure(2))
    then show ?thesis by simp
  next
    case (Some built)
    let ?w1 = "create_default_ui_order built w"
    show ?thesis
    proof (cases "write_file output_file_path (StructureDocument built) ?w1")
      case None
      then have "w' = ?w1"
        using assms(1) generate_with_structure(1)[OF Some, of output_file_path] by simp
      then show ?thesis by (simp add: create_default_ui_order_fields)
    next
      case (Some w2)
      then have "w' = w2"
        using assms(1) generate_with_structure(1)[OF \<open>built_structure w = Some built\<close>,
            of output_file_path] by simp
      then show ?thesis
        using write_file_fields(8)[OF Some] by (simp add: create_default_ui_order_fields)
    qed
  qed
  have f3: "built_structure w = None \<longrightarrow> res = None \<and> w' = w"
    using generate_without_structure[OF _ assms(1)] by blast
  have f4: "res = Some house \<longrightarrow> built_structure w = Some house"
    using generate_returns_built assms(1) by blast
  have f5: "room_order (default_ui_order house) = map room_name (rooms house)
           \<and> sorted (map room_name (rooms house))
           \<and> (\<forall>r \<in> set (rooms house).
                 sorted (map group_base_name (device_groups r))
               \<and> sorted (map device_name (standalone_devices r))
               \<and> (\<exists>r' \<in> set (rooms house).
                     r' = last (filter (\<lambda>x. room_name x = room_name r) (rooms house))
                   \<and> map_of (device_order_in_room (default_ui_order house)) (room_name r)
                       = Some (map group_base_name (device_groups r')
                                 @ map device_name (standalone_devices r')))
               \<and> (distinct (map room_name (rooms house))
                    \<longrightarrow> map_of (device_order_in_room (default_ui_order house)) (room_name r)
                       = Some (map group_base_name (device_groups r)
                                 @ map device_name (standalone_devices r))))"
    if built: "built_structure w = Some house"
  proof -
    from generate_with_structure(2)[OF built] obtain ds ls rs where
      b: "build_house_structure (bridge_ip_text w) ds ls rs = Inr house" by blast
    have g1: "room_order (default_ui_order house) = map room_name (rooms house)"
      by (simp add: default_ui_order_def)
    note g2 = build_house_structure_sorted(1)[OF b]
    have g3: "sorted (map group_base_name (device_groups r))
           \<and> sorted (map device_name (standalone_devices r))
           \<and> (\<exists>r' \<in> set (rooms house).
                 r' = last (filter (\<lambda>x. room_name x = room_name r) (rooms house))
               \<and> map_of (device_order_in_room (default_ui_order house)) (room_name r)
                   = Some (map group_base_name (device_groups r')
                             @ map device_name (standalone_devices r')))
           \<and> (distinct (map room_name (rooms house))
                \<longrightarrow> map_of (device_order_in_room (default_ui_order house)) (room_name r)
                   = Some (map group_base_name (device_groups r)
                             @ map device_name (standalone_devices r)))"
      if r: "r \<in> set (rooms house)" for r
    proof -
      let ?same = "filter (\<lambda>x. room_name x = room_name r) (rooms house)"
      have ne: "?same \<noteq> []" using r by (auto simp: filter_empty_conv)
      then have "last ?same \<in> set ?same" by (rule last_in_set)
      then have l: "last ?same \<in> set (rooms house)" by simp
      note look = default_ui_order_lookup[OF r, unfolded device_names_in_room_def]
      have "?same = [r]" if d: "distinct (map room_name (rooms house))"
      proof -
        have "\<And>x. x \<in> set (rooms house) \<Longrightarrow> room_name x = room_name r \<Longrightarrow> x = r"
          using d r by (meson distinct_map inj_onD)
        then have "?same = filter (\<lambda>x. x = r) (rooms house)"
          by (intro filter_cong) auto
        moreover have "distinct (rooms house)" using d by (simp add: distinct_map)
        moreover have "distinct xs \<Longrightarrow> r \<in> set xs \<Longrightarrow> filter (\<lambda>x. x = r) xs = [r]" for xs
          by (induction xs) (auto simp: filter_empty_conv)
        ultimately show ?thesis using r by simp
      qed
      then have "distinct (map room_name (rooms house)) \<longrightarrow> last ?same = r" by simp
      then show ?thesis
        using build_house_structure_sorted(2,3)[OF b r] l look by auto
    qed
    show ?thesis using g1 g2 g3 by blast
  qed
  show ?thesis using f1 f2 f3 f4 f5 by (intro conjI impI) blast+
qed

theorem default_ui_order_only_when_absent_witness:
  "file_of villa_world DEFAULT_OUTPUT_FILE \<noteq> file_of villa_world UI_ORDER_FILE_PATH_DEFAULT
   \<and> built_structure villa_world = Some villa_house
   \<and> rooms villa_house = [villa_attic, trio_bedroom]
   \<and> map group_base_name (device_groups trio_bedroom) = [''Lamp'']
   \<and> map device_name (standalone_devices trio_bedroom) = [''Desk'']
   \<and> distinct (map room_name (rooms villa_house))
   \<and> room_order (default_ui_order villa_house) = [''Attic'', ''Bedroom'']
   \<and> map_of (device_order_in_room (default_ui_order villa_house)) (room_name villa_attic)
       = Some [''Fan'']
   \<and> map_of (device_order_in_room (default_ui_order villa_house)) (room_name trio_bedroom)
       = Some [''Lamp'', ''Desk'']
   \<and> \<not> path_exists villa_world UI_ORDER_FILE_PATH_DEFAULT
   \<and> writable villa_world UI_ORDER_FILE_PATH_DEFAULT
   \<and> generate_hue_structure_json DEFAULT_OUTPUT_FILE villa_world =
       Inr (Some villa_house,
            villa_world\<lparr>files := (\<lambda>f. None)
               (1 \<mapsto> OrderingDocument villa_default_order,
                2 \<mapsto> StructureDocument villa_house)\<rparr>)
   \<and> files (villa_world\<lparr>files := (\<lambda>f. None)
               (1 \<mapsto> OrderingDocument villa_default_order,
                2 \<mapsto> StructureDocument villa_house)\<rparr>)
        (file_of villa_world UI_ORDER_FILE_PATH_DEFAULT)
       = Some (OrderingDocument (default_ui_order villa_house))
   \<and> path_exists villa_world_with_order UI_ORDER_FILE_PATH_DEFAULT
   \<and> files villa_world_with_order (file_of villa_world_with_order UI_ORDER_FILE_PATH_DEFAULT)
       = Some (OrderingDocument hand_written_order)
   \<and> hand_written_order \<noteq> default_ui_order villa_house
   \<and> generate_hue_structure_json DEFAULT_OUTPUT_FILE villa_world_with_order =
       Inr (Some villa_house,
            villa_world\<lparr>files := (\<lambda>f. None)
               (1 \<mapsto> OrderingDocument hand_written_order,
                2 \<mapsto> StructureDocument villa_house)\<rparr>)
   \<and> files (villa_world\<lparr>files := (\<lambda>f. None)
               (1 \<mapsto> OrderingDocument hand_written_order,
                2 \<mapsto> StructureDocument villa_house)\<rparr>)
        (file_of villa_world_with_order UI_ORDER_FILE_PATH_DEFAULT)
       = Some (OrderingDocument hand_written_order)
   \<and> \<not> path_exists villa_world_no_save UI_ORDER_FILE_PATH_DEFAULT
   \<and> writable villa_world_no_save UI_ORDER_FILE_PATH_DEFAULT
   \<and> \<not> writable villa_world_no_save DEFAULT_OUTPUT_FILE
   \<and> generate_hue_structure_json DEFAULT_OUTPUT_FILE villa_world_no_save =
       Inr (None,
            villa_world_no_save\<lparr>files := (\<lambda>f. None)
               (1 \<mapsto> OrderingDocument villa_default_order)\<rparr>)
   \<and> files (villa_world_no_save\<lparr>files := (\<lambda>f. None)
               (1 \<mapsto> OrderingDocument villa_default_order)\<rparr>)
        (file_of villa_world_no_save UI_ORDER_FILE_PATH_DEFAULT)
       = Some (OrderingDocument (default_ui_order villa_house))
   \<and> built_structure (villa_world\<lparr>room_reply := RequestException\<rparr>) = None
   \<and> generate_hue_structure_json DEFAULT_OUTPUT_FILE (villa_world\<lparr>room_reply := RequestException\<rparr>)
       = Inr (None, villa_world\<lparr>room_reply := RequestException\<rparr>)"
proof -
  let ?failed = "villa_world\<lparr>room_reply := RequestException\<rparr>"
  have pathsA: "file_of villa_world DEFAULT_OUTPUT_FILE
      \<noteq> file_of villa_world UI_ORDER_FILE_PATH_DEFAULT"
    by (simp add: villa_world_fields example_file_numbers)
  have pathsB: "file_of villa_world_with_order DEFAULT_OUTPUT_FILE
      \<noteq> file_of villa_world_with_order UI_ORDER_FILE_PATH_DEFAULT"
    by (simp add: villa_world_with_order_def villa_world_fields example_file_numbers)
  have pathsC: "file_of villa_world_no_save DEFAULT_OUTPUT_FILE
      \<noteq> file_of villa_world_no_save UI_ORDER_FILE_PATH_DEFAULT"
    by (simp add: villa_world_no_save_def villa_world_fields example_file_numbers)
  have pathsD: "file_of ?failed DEFAULT_OUTPUT_FILE \<noteq> file_of ?failed UI_ORDER_FILE_PATH_DEFAULT"
    by (simp add: villa_world_fields example_file_numbers)
  have runD: "generate_hue_structure_json DEFAULT_OUTPUT_FILE ?failed = Inr (None, ?failed)"
    by (simp add: generate_hue_structure_json_def get_hue_resources_def CONFIG_VALID_def
        truthy_str_def villa_world_fields Let_def split: list.splits)
  have builtD: "built_structure ?failed = None"
    by (simp add: built_structure_def get_hue_resources_def CONFIG_VALID_def
        truthy_str_def villa_world_fields split: list.splits)
  note tA = default_ui_order_only_when_absent[OF villa_generate pathsA, of villa_house]
  note tB = default_ui_order_only_when_absent[OF villa_generate_with_order pathsB, of villa_house]
  note tC = default_ui_order_only_when_absent[OF villa_generate_no_save pathsC, of villa_house]
  note tD = default_ui_order_only_when_absent[OF runD pathsD, of villa_house]
  note built = villa_worlds_built(1)
  have rooms: "rooms villa_house = [villa_attic, trio_bedroom]" by (simp add: villa_house_def)
  have groups: "map group_base_name (device_groups trio_bedroom) = [''Lamp'']"
    by (simp add: trio_bedroom_def)
  have alone: "map device_name (standalone_devices trio_bedroom) = [''Desk'']"
    by (simp add: trio_bedroom_def trio_desk_def)
  have dist: "distinct (map room_name (rooms villa_house))"
    by (simp add: villa_house_def villa_attic_def trio_bedroom_def)
  note content = tA[THEN conjunct2, THEN conjunct2, THEN conjunct2, THEN conjunct2, THEN mp,
      OF built]
  have order: "room_order (default_ui_order villa_house) = [''Attic'', ''Bedroom'']"
    using content[THEN conjunct1]
    by (simp add: villa_house_def villa_attic_def trio_bedroom_def)
  note each = content[THEN conjunct2, THEN conjunct2]
  have inA: "villa_attic \<in> set (rooms villa_house)" by (simp add: rooms)
  have inB: "trio_bedroom \<in> set (rooms villa_house)" by (simp add: rooms)
  have lookA: "map_of (device_order_in_room (default_ui_order villa_house))
        (room_name villa_attic) = Some [''Fan'']"
    using each[THEN bspec, OF inA, THEN conjunct2, THEN conjunct2, THEN conjunct2, THEN mp,
        OF dist]
    by (simp add: villa_attic_def)
  have lookB: "map_of (device_order_in_room (default_ui_order villa_house))
        (room_name trio_bedroom) = Some [''Lamp'', ''Desk'']"
    using each[THEN bspec, OF inB, THEN conjunct2, THEN conjunct2, THEN conjunct2, THEN mp,
        OF dist]
    by (simp only: groups alone append.simps)
  have absentA: "\<not> path_exists villa_world UI_ORDER_FILE_PATH_DEFAULT"
    by (simp add: path_exists_def villa_world_fields)
  have wrA: "writable villa_world UI_ORDER_FILE_PATH_DEFAULT"
    by (simp add: villa_world_fields)
  have fileA: "files (villa_world\<lparr>files := (\<lambda>f. None)
               (1 \<mapsto> OrderingDocument villa_default_order,
                2 \<mapsto> StructureDocument villa_house)\<rparr>)
        (file_of villa_world UI_ORDER_FILE_PATH_DEFAULT)
       = Some (OrderingDocument (default_ui_order villa_house))"
    using tA[THEN conjunct1] absentA wrA built by simp
  have presentB: "path_exists villa_world_with_order UI_ORDER_FILE_PATH_DEFAULT"
    by (simp add: path_exists_def villa_world_with_order_def villa_world_fields
        example_file_numbers)
  have beforeB: "files villa_world_with_order
        (file_of villa_world_with_order UI_ORDER_FILE_PATH_DEFAULT)
       = Some (OrderingDocument hand_written_order)"
    by (simp add: villa_world_with_order_def villa_world_fields example_file_numbers)
  have differ: "hand_written_order \<noteq> default_ui_order villa_house"
    by (simp add: villa_default_ui_order villa_default_order_def hand_written_order_def)
  have fileB: "files (villa_world\<lparr>files := (\<lambda>f. None)
               (1 \<mapsto> OrderingDocument hand_written_order,
                2 \<mapsto> StructureDocument villa_house)\<rparr>)
        (file_of villa_world_with_order UI_ORDER_FILE_PATH_DEFAULT)
       = Some (OrderingDocument hand_written_order)"
    using tB[THEN conjunct1] presentB beforeB by simp
  have absentC: "\<not> path_exists villa_world_no_save UI_ORDER_FILE_PATH_DEFAULT"
    by (simp add: path_exists_def villa_world_no_save_def villa_world_fields)
  have wrC: "writable villa_world_no_save UI_ORDER_FILE_PATH_DEFAULT"
    by (simp add: villa_world_no_save_def UI_ORDER_FILE_PATH_DEFAULT_def)
  have nowrC: "\<not> writable villa_world_no_save DEFAULT_OUTPUT_FILE"
    by (simp add: villa_world_no_save_def DEFAULT_OUTPUT_FILE_def)
  have fileC: "files (villa_world_no_save\<lparr>files := (\<lambda>f. None)
               (1 \<mapsto> OrderingDocument villa_default_order)\<rparr>)
        (file_of villa_world_no_save UI_ORDER_FILE_PATH_DEFAULT)
       = Some (OrderingDocument (default_ui_order villa_house))"
    using tC[THEN conjunct1] absentC wrC villa_worlds_built(3) by simp
  have runD': "generate_hue_structure_json DEFAULT_OUTPUT_FILE ?failed = Inr (None, ?failed)"
    using tD[THEN conjunct2, THEN conjunct2, THEN conjunct1, THEN mp, OF builtD] runD by simp
  show ?thesis
    by (intro conjI pathsA built rooms groups alone dist order lookA lookB absentA wrA
        villa_generate fileA presentB beforeB differ villa_generate_with_order fileB
        absentC wrC nowrC villa_generate_no_save fileC builtD runD')
qed

subsection \<open>StructureBuilder: groups and standalone devices\<close>

lemma fold_raise_invariant:
  assumes "I s" and "\<And>s x s'. I s \<Longrightarrow> f s x = Inr s' \<Longrightarrow> I s'"
    and "fold_raise f xs s = Inr s'"
  shows "I s'"
  using assms(1,3)
proof (induction xs arbitrary: s)
  case Nil
  then show ?case by simp
next
  case (Cons x xs)
  then show ?case using assms(2) by (auto split: sum.splits)
qed

lemma device_details_normalized:
  assumes "fold_raise add_device_detail devices_raw [] = Inr dm"
    and "map_of dm i = Some detail"
  shows "detail_normalized_name detail = normalize_device_name (detail_name detail)"
proof -
  let ?I = "\<lambda>m :: (string \<times> device_detail) list.
              \<forall>(i, d) \<in> set m. detail_normalized_name d = normalize_device_name (detail_name d)"
  have "?I dm"
  proof (rule fold_raise_invariant[where I = ?I, OF _ _ assms(1)])
    show "?I []" by simp
  next
    fix m :: "(string \<times> device_detail) list" and dev m'
    assume inv: "?I m" and step: "add_device_detail m dev = Inr m'"
    show "?I m'"
      using inv step set_update_subset[of _ _ m]
      by (fastforce simp: add_device_detail_def Let_def split: option.splits if_splits)
  qed
  then show ?thesis using map_of_SomeD[OF assms(2)] by auto
qed

lemma update_fresh: "k \<notin> fst ` set al \<Longrightarrow> AList.update k v al = al @ [(k, v)]"
  by (induction al) auto

lemma get_list_update:
  "get_list (AList.update n v b) k = (if k = n then v else get_list b k)"
  by (simp add: get_list_def update_conv')

lemma devices_named_append:
  "devices_named k (xs @ ys) = devices_named k xs @ devices_named k ys"
  by (simp add: devices_named_def)

lemma add_room_device_buckets:
  assumes norm: "\<And>i detail. map_of dm i = Some detail
                  \<Longrightarrow> detail_normalized_name detail = normalize_device_name (detail_name detail)"
    and b: "buckets_of b devs"
  shows "buckets_of (add_room_device dm lm b dev_id) (devs @ room_device_entry dm lm dev_id)"
proof (cases dev_id)
  case None
  then show ?thesis using b by (simp add: add_room_device_def room_device_entry_def)
next
  case (Some i)
  show ?thesis
  proof (cases "map_of dm i")
    case None
    then show ?thesis using b Some by (simp add: add_room_device_def room_device_entry_def)
  next
    case (Some detail)
    let ?n = "detail_normalized_name detail"
    let ?d = "\<lparr>device_name = detail_name detail, device_id = detail_id detail,
               light_services = get_list lm i\<rparr>"
    let ?b' = "AList.update ?n (get_list b ?n @ [?d]) b"
    have n: "?n = normalize_device_name (device_name ?d)" using norm[OF Some] by simp
    have step: "add_room_device dm lm b dev_id = ?b'"
      and entry: "room_device_entry dm lm dev_id = [?d]"
      using Some \<open>dev_id = Some i\<close>
      by (simp_all add: add_room_device_def room_device_entry_def Let_def)
    have 1: "distinct (map fst ?b')" using b by (simp add: buckets_of_def distinct_update)
    have 2: "get_list ?b' k = devices_named k (devs @ [?d])" for k
    proof (cases "k = ?n")
      case True
      have "devices_named ?n [?d] = [?d]" unfolding devices_named_def using n by simp
      then show ?thesis using b True
        by (simp add: get_list_update devices_named_append buckets_of_def)
    next
      case False
      then have "devices_named k [?d] = []" unfolding devices_named_def using n by simp
      then show ?thesis using b False
        by (simp add: get_list_update devices_named_append buckets_of_def)
    qed
    have 3: "\<forall>(k, l) \<in> set ?b'. l \<noteq> []"
      using b set_update_subset[of ?n "get_list b ?n @ [?d]" b]
      by (fastforce simp: buckets_of_def)
    show ?thesis unfolding step entry buckets_of_def using 1 2 3 by blast
  qed
qed

lemma room_loop_buckets:
  assumes norm: "\<And>i detail. map_of dm i = Some detail
                  \<Longrightarrow> detail_normalized_name detail = normalize_device_name (detail_name detail)"
    and b: "buckets_of b devs"
  shows "buckets_of (foldl (add_room_device dm lm) b ids)
           (devs @ concat (map (room_device_entry dm lm) ids))"
  using b
proof (induction ids arbitrary: b devs)
  case Nil
  then show ?case by simp
next
  case (Cons dev_id ids)
  have "buckets_of (add_room_device dm lm b dev_id) (devs @ room_device_entry dm lm dev_id)"
    using norm Cons.prems by (rule add_room_device_buckets)
  from Cons.IH[OF this] show ?case by simp
qed

lemma buckets_of_member:
  assumes "buckets_of b devs"
  shows "(k, ds) \<in> set b \<longleftrightarrow> ds = devices_named k devs \<and> ds \<noteq> []"
proof
  assume m: "(k, ds) \<in> set b"
  then have "map_of b k = Some ds" using assms by (simp add: buckets_of_def)
  then have "get_list b k = ds" by (simp add: get_list_def)
  then show "ds = devices_named k devs \<and> ds \<noteq> []"
    using assms m by (auto simp: buckets_of_def)
next
  assume a: "ds = devices_named k devs \<and> ds \<noteq> []"
  then have "get_list b k = ds" "get_list b k \<noteq> []" using assms by (auto simp: buckets_of_def)
  then obtain l where "map_of b k = Some l" "l = ds"
    by (cases "map_of b k") (auto simp: get_list_def)
  then show "(k, ds) \<in> set b" by (auto dest: map_of_SomeD)
qed

text \<open>The second room loop, over buckets with distinct names, as a filter.\<close>

lemma populate_room_loop:
  assumes "distinct (map fst b)" and "fst ` set b \<inter> fst ` set groups = {}"
  shows "foldl populate_room (groups, standalone) b =
     (groups @ map (\<lambda>(k, ds). (k, \<lparr>group_base_name = k, hue_devices = sort_key device_name ds\<rparr>))
                 (filter (\<lambda>(k, ds). length ds > 1) b),
      standalone @ map (\<lambda>(k, ds). ds ! 0) (filter (\<lambda>(k, ds). length ds = 1) b))"
  using assms
proof (induction b arbitrary: groups standalone)
  case Nil
  then show ?case by simp
next
  case (Cons e b)
  obtain k ds where e: "e = (k, ds)" by (cases e)
  have fresh: "k \<notin> fst ` set groups" using Cons.prems(2) e by auto
  have d: "distinct (map fst b)" and kb: "k \<notin> fst ` set b" using Cons.prems(1) e by auto
  let ?g = "\<lparr>group_base_name = k, hue_devices = sort_key device_name ds\<rparr>"
  show ?case
  proof (cases "length ds > 1")
    case True
    have step: "populate_room (groups, standalone) (k, ds) = (groups @ [(k, ?g)], standalone)"
      using True fresh by (simp add: populate_room_def update_fresh)
    have disj: "fst ` set b \<inter> fst ` set (groups @ [(k, ?g)]) = {}"
      using Cons.prems(2) kb by auto
    show ?thesis
      using Cons.IH[OF d disj, of standalone] True
      by (simp add: step e)
  next
    case False
    have disj: "fst ` set b \<inter> fst ` set groups = {}" using Cons.prems(2) by auto
    show ?thesis
    proof (cases "length ds = 1")
      case True
      have step: "populate_room (groups, standalone) (k, ds) = (groups, standalone @ [ds ! 0])"
        using True by (simp add: populate_room_def)
      show ?thesis using Cons.IH[OF d disj, of "standalone @ [ds ! 0]"] True
        by (simp add: step e)
    next
      case neither: False
      have step: "populate_room (groups, standalone) (k, ds) = (groups, standalone)"
        using False neither by (simp add: populate_room_def)
      show ?thesis using Cons.IH[OF d disj, of standalone] False neither
        by (simp add: step e)
    qed
  qed
qed

lemma build_room_lists:
  assumes built: "build_room dm lm raw = Inr r"
    and b: "b = foldl (add_room_device dm lm) [] (room_hue_device_ids raw)"
    and d: "distinct (map fst b)"
  shows "device_groups r = sort_key group_base_name
           (map (\<lambda>(k, ds). \<lparr>group_base_name = k, hue_devices = sort_key device_name ds\<rparr>)
              (filter (\<lambda>(k, ds). length ds > 1) b))"
    and "standalone_devices r = sort_key device_name
           (map (\<lambda>(k, ds). ds ! 0) (filter (\<lambda>(k, ds). length ds = 1) b))"
proof -
  have loop: "foldl populate_room ([], []) b =
     (map (\<lambda>(k, ds). (k, \<lparr>group_base_name = k, hue_devices = sort_key device_name ds\<rparr>))
                 (filter (\<lambda>(k, ds). length ds > 1) b),
      map (\<lambda>(k, ds). ds ! 0) (filter (\<lambda>(k, ds). length ds = 1) b))"
    using populate_room_loop[OF d, of "[]" "[]"] by simp
  have snd_map: "snd \<circ> (\<lambda>(k, ds). (k, \<lparr>group_base_name = k, hue_devices = sort_key device_name ds\<rparr>))
      = (\<lambda>(k :: string, ds). \<lparr>group_base_name = k, hue_devices = sort_key device_name ds\<rparr>)"
    by (auto simp: fun_eq_iff)
  from built obtain i where
    r: "r = \<lparr>room_name = metadata_name (raw_room_metadata raw) (''Unnamed Room '' @ take 6 i),
              room_id = i,
              device_groups = sort_key group_base_name (map snd (fst (foldl populate_room ([], []) b))),
              standalone_devices = sort_key device_name (snd (foldl populate_room ([], []) b))\<rparr>"
    unfolding b by (auto simp: build_room_def Let_def split: option.splits prod.splits)
  show "device_groups r = sort_key group_base_name
           (map (\<lambda>(k, ds). \<lparr>group_base_name = k, hue_devices = sort_key device_name ds\<rparr>)
              (filter (\<lambda>(k, ds). length ds > 1) b))"
    unfolding r loop by (simp add: snd_map)
  show "standalone_devices r = sort_key device_name
           (map (\<lambda>(k, ds). ds ! 0) (filter (\<lambda>(k, ds). length ds = 1) b))"
    unfolding r loop by simp
qed

lemma build_room_buckets:
  assumes norm: "\<And>i detail. map_of dm i = Some detail
                  \<Longrightarrow> detail_normalized_name detail = normalize_device_name (detail_name detail)"
    and built: "build_room dm lm raw = Inr r"
  shows "g \<in> set (device_groups r) \<longleftrightarrow>
           (\<exists>k. 2 \<le> length (devices_named k (room_devices dm lm raw))
              \<and> g = \<lparr>group_base_name = k,
                      hue_devices = sort_key device_name (devices_named k (room_devices dm lm raw))\<rparr>)"
    and "d \<in> set (standalone_devices r) \<longleftrightarrow>
           (\<exists>k. devices_named k (room_devices dm lm raw) = [d])"
    and "distinct (map group_base_name (device_groups r))"
    and "distinct (standalone_devices r)"
proof -
  define b where "b = foldl (add_room_device dm lm) [] (room_hue_device_ids raw)"
  let ?devs = "room_devices dm lm raw"
  have "buckets_of [] []" by (simp add: buckets_of_def get_list_def devices_named_def)
  from room_loop_buckets[where dm = dm and lm = lm and ids = "room_hue_device_ids raw",
      OF norm this]
  have bk: "buckets_of b ?devs" by (simp add: b_def room_devices_def)
  then have db: "distinct (map fst b)" by (simp add: buckets_of_def)
  note mem = buckets_of_member[OF bk]
  note lists = build_room_lists[OF built b_def db]
  show "g \<in> set (device_groups r) \<longleftrightarrow>
           (\<exists>k. 2 \<le> length (devices_named k ?devs)
              \<and> g = \<lparr>group_base_name = k, hue_devices = sort_key device_name (devices_named k ?devs)\<rparr>)"
  proof
    assume "g \<in> set (device_groups r)"
    then obtain k ds where "(k, ds) \<in> set b" "length ds > 1"
      "g = \<lparr>group_base_name = k, hue_devices = sort_key device_name ds\<rparr>"
      unfolding lists by auto
    then show "\<exists>k. 2 \<le> length (devices_named k ?devs)
              \<and> g = \<lparr>group_base_name = k, hue_devices = sort_key device_name (devices_named k ?devs)\<rparr>"
      using mem by (intro exI[of _ k]) auto
  next
    assume "\<exists>k. 2 \<le> length (devices_named k ?devs)
              \<and> g = \<lparr>group_base_name = k, hue_devices = sort_key device_name (devices_named k ?devs)\<rparr>"
    then obtain k where k: "2 \<le> length (devices_named k ?devs)"
      "g = \<lparr>group_base_name = k, hue_devices = sort_key device_name (devices_named k ?devs)\<rparr>"
      by blast
    then have "(k, devices_named k ?devs) \<in> set b" using mem[of k "devices_named k ?devs"] by auto
    then show "g \<in> set (device_groups r)" unfolding lists using k by force
  qed
  show "d \<in> set (standalone_devices r) \<longleftrightarrow> (\<exists>k. devices_named k ?devs = [d])"
  proof
    assume "d \<in> set (standalone_devices r)"
    then obtain k ds where m: "(k, ds) \<in> set b" "length ds = 1" "d = ds ! 0"
      unfolding lists by auto
    then have "ds = [d]" by (cases ds) auto
    then show "\<exists>k. devices_named k ?devs = [d]" using mem[of k ds] m(1) by auto
  next
    assume "\<exists>k. devices_named k ?devs = [d]"
    then obtain k where "devices_named k ?devs = [d]" by blast
    then have "(k, [d]) \<in> set b" using mem[of k "[d]"] by auto
    then show "d \<in> set (standalone_devices r)" unfolding lists by force
  qed
  show "distinct (map group_base_name (device_groups r))"
  proof -
    let ?gs = "map (\<lambda>(k, ds). \<lparr>group_base_name = k, hue_devices = sort_key device_name ds\<rparr>)
                 (filter (\<lambda>(k, ds). length ds > 1) b)"
    have "map group_base_name ?gs = map fst (filter (\<lambda>(k, ds). length ds > 1) b)"
      by (induction b) auto
    moreover have "distinct (map fst (filter (\<lambda>(k, ds). length ds > 1) b))"
      using db by (rule distinct_map_filter)
    ultimately have "distinct (map group_base_name ?gs)" by (simp only:)
    moreover have "mset (map group_base_name (device_groups r)) = mset (map group_base_name ?gs)"
      by (simp only: lists mset_map mset_sort)
    ultimately show ?thesis using mset_eq_imp_distinct_iff by blast
  qed
  show "distinct (standalone_devices r)"
  proof -
    let ?single = "filter (\<lambda>(k, ds). length ds = 1) b"
    have "distinct b" using db by (simp add: distinct_map)
    then have ds: "distinct ?single" by simp
    have "inj_on (\<lambda>(k, ds). ds ! 0) (set ?single)"
    proof (rule inj_onI)
      fix x y assume x: "x \<in> set ?single" and y: "y \<in> set ?single"
        and eq: "(\<lambda>(k, ds). ds ! 0) x = (\<lambda>(k, ds). ds ! 0) y"
      obtain k ds where xe: "x = (k, ds)" by (cases x)
      obtain k' ds' where ye: "y = (k', ds')" by (cases y)
      from x xe have xm: "(k, ds) \<in> set b" and xl: "length ds = 1" by auto
      from y ye have ym: "(k', ds') \<in> set b" and yl: "length ds' = 1" by auto
      have dsd: "ds = [ds ! 0]" using xl by (cases ds) auto
      have dsd': "ds' = [ds' ! 0]" using yl by (cases ds') auto
      have same: "ds ! 0 = ds' ! 0" using eq xe ye by simp
      have "ds ! 0 \<in> set (devices_named k ?devs)" using mem[of k ds] xm dsd by (metis list.set_intros(1))
      then have "normalize_device_name (device_name (ds ! 0)) = k" by (simp add: devices_named_def)
      moreover have "ds' ! 0 \<in> set (devices_named k' ?devs)"
        using mem[of k' ds'] ym dsd' by (metis list.set_intros(1))
      then have "normalize_device_name (device_name (ds' ! 0)) = k'" by (simp add: devices_named_def)
      ultimately have "k = k'" using same by simp
      moreover have "ds = ds'" using dsd dsd' same by metis
      ultimately show "x = y" using xe ye by simp
    qed
    then have "distinct (map (\<lambda>(k, ds). ds ! 0) ?single)" using ds by (simp add: distinct_map)
    then show ?thesis unfolding lists by simp
  qed
qed

lemma trio_build:
  "build_house_structure ''192.168.1.2'' trio_devices example_lights trio_rooms = Inr trio_house"
  by (simp add: build_house_structure_def build_room_def add_device_detail_def
      add_light_service_def make_light_service_def add_room_device_def populate_room_def
      room_hue_device_ids_def metadata_name_def get_list_def example_defs Let_def
      trio_devices_def trio_rooms_def trio_desk_def trio_bedroom_def trio_house_def
      normalize_lamp_1 normalize_lamp_2 normalize_desk)

lemma solo_build:
  "build_house_structure ''192.168.1.2'' solo_devices example_lights solo_rooms = Inr solo_house"
  by (simp add: build_house_structure_def build_room_def add_device_detail_def
      add_light_service_def make_light_service_def add_room_device_def populate_room_def
      room_hue_device_ids_def metadata_name_def get_list_def example_defs Let_def
      solo_devices_def solo_rooms_def solo_bedroom_def solo_house_def
      normalize_lamp_1)

text \<open>
  C4. For every room in the built structure, the devices of the room are bucketed by
  normalized name. A bucket of at least two devices becomes a device group, named by the
  normalized name, whose members are the bucket sorted by device display name; a bucket of
  exactly one device becomes a standalone device, and nothing else is a group or a
  standalone device of the room. No two groups of a room share a base name and no
  standalone device is listed twice. The two examples are evaluated after the theorem:
  \<open>Lamp 1\<close>, \<open>Lamp 2\<close>, \<open>Desk\<close> give one group \<open>Lamp\<close> of two members and the standalone
  device \<open>Desk\<close>; a single \<open>Lamp 1\<close> gives a standalone device and no group.
\<close>

theorem rooms_bucket_devices_by_normalized_name:
  assumes "build_house_structure bridge_ip devices_raw light_services_raw rooms_raw = Inr house"
    and "r \<in> set (rooms house)"
  shows "\<exists>dm raw devs.
           fold_raise add_device_detail devices_raw [] = Inr dm
         \<and> raw \<in> set rooms_raw
         \<and> build_room dm (foldl (add_light_service dm) [] light_services_raw) raw = Inr r
         \<and> devs = room_devices dm (foldl (add_light_service dm) [] light_services_raw) raw
         \<and> (\<forall>g. g \<in> set (device_groups r) \<longleftrightarrow>
                (\<exists>k. 2 \<le> length (devices_named k devs)
                   \<and> g = \<lparr>group_base_name = k,
                           hue_devices = sort_key device_name (devices_named k devs)\<rparr>))
         \<and> (\<forall>d. d \<in> set (standalone_devices r) \<longleftrightarrow> (\<exists>k. devices_named k devs = [d]))
         \<and> distinct (map group_base_name (device_groups r))
         \<and> distinct (standalone_devices r)"
proof -
  from build_house_structure_rooms[OF assms] obtain dm raw where
    dm: "fold_raise add_device_detail devices_raw [] = Inr dm"
    and raw: "raw \<in> set rooms_raw"
    and built: "build_room dm (foldl (add_light_service dm) [] light_services_raw) raw = Inr r"
    by blast
  let ?lm = "foldl (add_light_service dm) [] light_services_raw"
  have norm: "\<And>i detail. map_of dm i = Some detail
      \<Longrightarrow> detail_normalized_name detail = normalize_device_name (detail_name detail)"
    using device_details_normalized[OF dm] .
  note b = build_room_buckets[of dm ?lm raw r, OF norm built]
  show ?thesis
    by (intro exI[of _ dm] exI[of _ raw] exI[of _ "room_devices dm ?lm raw"] conjI allI
        dm raw built refl b)
qed

theorem rooms_bucket_devices_by_normalized_name_witness:
  "build_house_structure ''192.168.1.2'' trio_devices example_lights trio_rooms = Inr trio_house
   \<and> trio_bedroom \<in> set (rooms trio_house)
   \<and> device_groups trio_bedroom
       = [\<lparr>group_base_name = ''Lamp'', hue_devices = [example_lamp_1, example_lamp_2]\<rparr>]
   \<and> standalone_devices trio_bedroom = [trio_desk]
   \<and> (\<exists>dm raw devs.
           fold_raise add_device_detail trio_devices [] = Inr dm
         \<and> raw \<in> set trio_rooms
         \<and> devs = room_devices dm (foldl (add_light_service dm) [] example_lights) raw
         \<and> (\<exists>k. 2 \<le> length (devices_named k devs)
                   \<and> \<lparr>group_base_name = ''Lamp'', hue_devices = [example_lamp_1, example_lamp_2]\<rparr>
                       = \<lparr>group_base_name = k,
                           hue_devices = sort_key device_name (devices_named k devs)\<rparr>)
         \<and> (\<exists>k. devices_named k devs = [trio_desk]))
   \<and> build_house_structure ''192.168.1.2'' solo_devices example_lights solo_rooms = Inr solo_house
   \<and> solo_bedroom \<in> set (rooms solo_house)
   \<and> device_groups solo_bedroom = []
   \<and> standalone_devices solo_bedroom = [example_lamp_1]
   \<and> (\<exists>dm raw devs.
           fold_raise add_device_detail solo_devices [] = Inr dm
         \<and> raw \<in> set solo_rooms
         \<and> devs = room_devices dm (foldl (add_light_service dm) [] example_lights) raw
         \<and> (\<exists>k. devices_named k devs = [example_lamp_1]))"
proof -
  have tm: "trio_bedroom \<in> set (rooms trio_house)" by (simp add: trio_house_def)
  have tg: "device_groups trio_bedroom
       = [\<lparr>group_base_name = ''Lamp'', hue_devices = [example_lamp_1, example_lamp_2]\<rparr>]"
    and ts: "standalone_devices trio_bedroom = [trio_desk]"
    by (simp_all add: trio_bedroom_def)
  have sm: "solo_bedroom \<in> set (rooms solo_house)" by (simp add: solo_house_def)
  have sg: "device_groups solo_bedroom = []"
    and ss: "standalone_devices solo_bedroom = [example_lamp_1]"
    by (simp_all add: solo_bedroom_def)
  from rooms_bucket_devices_by_normalized_name[OF trio_build tm] obtain dm raw devs where
    t: "fold_raise add_device_detail trio_devices [] = Inr dm" "raw \<in> set trio_rooms"
       "devs = room_devices dm (foldl (add_light_service dm) [] example_lights) raw"
       "\<forall>g. g \<in> set (device_groups trio_bedroom) \<longleftrightarrow>
                (\<exists>k. 2 \<le> length (devices_named k devs)
                   \<and> g = \<lparr>group_base_name = k,
                           hue_devices = sort_key device_name (devices_named k devs)\<rparr>)"
       "\<forall>d. d \<in> set (standalone_devices trio_bedroom) \<longleftrightarrow> (\<exists>k. devices_named k devs = [d])"
    by blast
  have t4: "\<exists>k. 2 \<le> length (devices_named k devs)
                   \<and> \<lparr>group_base_name = ''Lamp'', hue_devices = [example_lamp_1, example_lamp_2]\<rparr>
                       = \<lparr>group_base_name = k,
                           hue_devices = sort_key device_name (devices_named k devs)\<rparr>"
    using t(4)[rule_format, of "\<lparr>group_base_name = ''Lamp'', hue_devices = [example_lamp_1, example_lamp_2]\<rparr>"]
    by (simp add: tg)
  have t5: "\<exists>k. devices_named k devs = [trio_desk]"
    using t(5)[rule_format, of trio_desk] by (simp add: ts)
  from rooms_bucket_devices_by_normalized_name[OF solo_build sm] obtain dm' raw' devs' where
    s: "fold_raise add_device_detail solo_devices [] = Inr dm'" "raw' \<in> set solo_rooms"
       "devs' = room_devices dm' (foldl (add_light_service dm') [] example_lights) raw'"
       "\<forall>d. d \<in> set (standalone_devices solo_bedroom) \<longleftrightarrow> (\<exists>k. devices_named k devs' = [d])"
    by blast
  have s4: "\<exists>k. devices_named k devs' = [example_lamp_1]"
    using s(4)[rule_format, of example_lamp_1] by (simp add: ss)
  have texists: "\<exists>dm raw devs.
           fold_raise add_device_detail trio_devices [] = Inr dm
         \<and> raw \<in> set trio_rooms
         \<and> devs = room_devices dm (foldl (add_light_service dm) [] example_lights) raw
         \<and> (\<exists>k. 2 \<le> length (devices_named k devs)
                   \<and> \<lparr>group_base_name = ''Lamp'', hue_devices = [example_lamp_1, example_lamp_2]\<rparr>
                       = \<lparr>group_base_name = k,
                           hue_devices = sort_key device_name (devices_named k devs)\<rparr>)
         \<and> (\<exists>k. devices_named k devs = [trio_desk])"
    by (intro exI[of _ dm] exI[of _ raw] exI[of _ devs] conjI t(1) t(2) t(3) t4 t5)
  have sexists: "\<exists>dm raw devs.
           fold_raise add_device_detail solo_devices [] = Inr dm
         \<and> raw \<in> set solo_rooms
         \<and> devs = room_devices dm (foldl (add_light_service dm) [] example_lights) raw
         \<and> (\<exists>k. devices_named k devs = [example_lamp_1])"
    by (intro exI[of _ dm'] exI[of _ raw'] exI[of _ devs'] conjI s(1) s(2) s(3) s4)
  show ?thesis
    by (intro conjI trio_build tm tg ts texists solo_build sm sg ss sexists)
qed

end
